theory Spec2Isabelle
  imports Main "HOL-Library.Word"
begin

section \<open>The rotN encryptor of examples/c/ex\_encrypt.c\<close>

text \<open>
  The development embeds the five callbacks of the example encryptor
  (\<open>rotate_encrypt\<close>, \<open>rotate_decrypt\<close>, \<open>rotate_sizing\<close>, \<open>rotate_customize\<close>,
  \<open>rotate_terminate\<close>) and the helpers they call, on an LP64 platform:
  \<open>uint8_t\<close>, \<open>uint32_t\<close> and \<open>size_t\<close> are 8, 32 and 64 bit words whose arithmetic wraps.
\<close>

subsection \<open>Machine types, outcomes of a call, constants\<close>

type_synonym u8 = "8 word"
type_synonym u32 = "32 word"
type_synonym size_t = "64 word"
type_synonym addr = nat

text \<open>
  A call either returns, or touches memory outside a live object (\<open>Fault\<close>: the C
  behaviour is undefined), or never returns (\<open>Diverges\<close>).
\<close>

datatype 'a outcome = Returns 'a | Fault | Diverges

definition and_then :: "'a outcome \<Rightarrow> ('a \<Rightarrow> 'b outcome) \<Rightarrow> 'b outcome" where
  "and_then m f = (case m of Returns x \<Rightarrow> f x | Fault \<Rightarrow> Fault | Diverges \<Rightarrow> Diverges)"

definition CHKSUM_LEN :: nat where "CHKSUM_LEN = 4"
definition IV_LEN :: nat where "IV_LEN = 16"

text \<open>The \<open>errno\<close> values of \<open>errno.h\<close> (Linux numbering).\<close>

definition EPERM :: int where "EPERM = 1"
definition ENOMEM :: int where "ENOMEM = 12"
definition EINVAL :: int where "EINVAL = 22"

definition SYS_PW :: string where "SYS_PW = ''system_password''"
definition USER1_KEYID :: string where "USER1_KEYID = ''user1''"
definition USER2_KEYID :: string where "USER2_KEYID = ''user2''"

subsection \<open>The instance structure and the heap\<close>

text \<open>
  \<open>MY_CRYPTO\<close> without its first member, the table of callbacks, which no callback reads.
  \<open>keyid\<close> and \<open>password\<close> are pointers to allocated strings; \<open>None\<close> is \<open>NULL\<close>.
\<close>

record MY_CRYPTO =
  rot_N :: u32
  num_calls :: u32
  keyid :: "addr option"
  password :: "addr option"

text \<open>
  The store: the live \<open>MY_CRYPTO\<close> objects and the live strings, by address. The
  process-wide \<open>my_crypto_global\<close> is a live object at a fixed address.
\<close>

record heap =
  cryptos :: "addr \<rightharpoonup> MY_CRYPTO"
  strings :: "addr \<rightharpoonup> string"

definition my_crypto_global :: addr where "my_crypto_global = 0"

definition store_crypto :: "heap \<Rightarrow> addr \<Rightarrow> MY_CRYPTO \<Rightarrow> heap" where
  "store_crypto h p mc = h\<lparr>cryptos := (cryptos h)(p \<mapsto> mc)\<rparr>"

text \<open>\<open>free\<close> of a block that is not live is undefined.\<close>

definition free_string :: "heap \<Rightarrow> addr \<Rightarrow> heap outcome" where
  "free_string h p =
     (case strings h p of None \<Rightarrow> Fault
      | Some s \<Rightarrow> Returns (h\<lparr>strings := (strings h)(p := None)\<rparr>))"

definition free_crypto :: "heap \<Rightarrow> addr \<Rightarrow> heap outcome" where
  "free_crypto h p =
     (case cryptos h p of None \<Rightarrow> Fault
      | Some mc \<Rightarrow> Returns (h\<lparr>cryptos := (cryptos h)(p := None)\<rparr>))"

subsection \<open>Header bytes\<close>

text \<open>
  \<open>make_cksum\<close> and \<open>make_iv\<close> fill their array with \<open>(uint8_t)random()\<close>. The values
  that the successive calls of \<open>random()\<close> return are the parameter \<open>rnd\<close>. Both assume
  the array is big enough, as the source comments say.
\<close>

definition make_cksum :: "(nat \<Rightarrow> int) \<Rightarrow> u8 list \<Rightarrow> u8 list" where
  "make_cksum rnd dst = fold (\<lambda>i d. d[i := word_of_int (rnd i)]) [0..<CHKSUM_LEN] dst"

definition make_iv :: "(nat \<Rightarrow> int) \<Rightarrow> u8 list \<Rightarrow> u8 list" where
  "make_iv rnd dst = fold (\<lambda>i d. d[i := word_of_int (rnd i)]) [0..<IV_LEN] dst"

text \<open>The 20 header bytes that \<open>make_cksum\<close> and then \<open>make_iv\<close> write.\<close>

definition header :: "(nat \<Rightarrow> int) \<Rightarrow> u8 list" where
  "header rnd = map (\<lambda>i. word_of_int (rnd i)) [0..<4]
                @ map (\<lambda>k. word_of_int (rnd (4 + k))) [0..<16]"

subsection \<open>do\_rotate\<close>

text \<open>
  \<open>isalpha\<close> and \<open>islower\<close> in the "C" locale (the program never calls \<open>setlocale\<close>).
\<close>

definition isalpha :: "u8 \<Rightarrow> bool" where
  "isalpha b = ((65 \<le> b \<and> b \<le> 90) \<or> (97 \<le> b \<and> b \<le> 122))"

definition islower :: "u8 \<Rightarrow> bool" where
  "islower b = (97 \<le> b \<and> b \<le> 122)"

text \<open>
  The body of the loop: \<open>(buf[i] - 'a' + rotn) % 26 + 'a'\<close> is computed in
  \<open>uint32_t\<close>, the type of \<open>rotn\<close>, and stored back into a \<open>uint8_t\<close>.
\<close>

definition rotate_byte :: "u8 \<Rightarrow> u32 \<Rightarrow> u8" where
  "rotate_byte b rotn =
     (if isalpha b then
        (if islower b then ucast ((ucast b - 97 + rotn) mod 26 + 97 :: u32)
         else ucast ((ucast b - 65 + rotn) mod 26 + 65 :: u32))
      else b)"

text \<open>
  \<open>for (i = 0; i < len; i++)\<close> with \<open>uint32_t i\<close> and \<open>size_t len\<close>: the comparison is
  made in \<open>size_t\<close>, the increment wraps at \<open>2^32\<close>. \<open>buf\<close> is the memory from the
  pointer on.
\<close>

partial_function (option) do_rotate_loop ::
  "u32 \<Rightarrow> u8 list \<Rightarrow> size_t \<Rightarrow> u32 \<Rightarrow> u8 list outcome option" where
  "do_rotate_loop i buf len rotn =
     (if ucast i < len then
        (if unat i < length buf
         then do_rotate_loop (i + 1) (buf[unat i := rotate_byte (buf ! unat i) rotn]) len rotn
         else Some Fault)
      else Some (Returns buf))"

declare do_rotate_loop.simps [code]

definition do_rotate :: "u8 list \<Rightarrow> size_t \<Rightarrow> u32 \<Rightarrow> u8 list outcome" where
  "do_rotate buf len rotn =
     (case do_rotate_loop 0 buf len rotn of None \<Rightarrow> Diverges | Some r \<Rightarrow> r)"

subsection \<open>Encrypt, decrypt, sizing\<close>

text \<open>
  \<open>memcpy(&dst[doff], &src[soff], n)\<close> between two distinct buffers; a buffer is the
  list of the bytes allocated to it.
\<close>

definition memcpy :: "u8 list \<Rightarrow> nat \<Rightarrow> u8 list \<Rightarrow> nat \<Rightarrow> nat \<Rightarrow> u8 list outcome" where
  "memcpy dst doff src soff n =
     (if doff + n \<le> length dst \<and> soff + n \<le> length src
      then Returns (take doff dst @ take n (drop soff src) @ drop (doff + n) dst)
      else Fault)"

text \<open>
  What a call of \<open>rotate_encrypt\<close> or \<open>rotate_decrypt\<close> leaves behind: the return
  value, the destination buffer, \<open>*result_lenp\<close> and the instance. \<open>*result_lenp\<close>
  is passed in with its value before the call, since some paths do not assign it.
\<close>

record call_result =
  r_ret :: int
  r_dst :: "u8 list"
  r_result_len :: size_t
  r_crypto :: MY_CRYPTO

text \<open>
  \<open>src = None\<close> is \<open>src == NULL\<close>. The diagnostic that \<open>rotate_decrypt\<close> prints on
  \<open>stderr\<close> before returning \<open>ENOMEM\<close> is not part of the state.
\<close>

definition rotate_decrypt ::
  "MY_CRYPTO \<Rightarrow> u8 list option \<Rightarrow> size_t \<Rightarrow> u8 list \<Rightarrow> size_t \<Rightarrow> size_t
   \<Rightarrow> call_result outcome" where
  "rotate_decrypt my_crypto src src_len dst dst_len result_len0 =
     (let c = my_crypto\<lparr>num_calls := num_calls my_crypto + 1\<rparr> in
      case src of
        None \<Rightarrow> Returns \<lparr>r_ret = 0, r_dst = dst, r_result_len = result_len0, r_crypto = c\<rparr>
      | Some s \<Rightarrow>
          if dst_len < src_len - of_nat CHKSUM_LEN - of_nat IV_LEN
          then Returns \<lparr>r_ret = ENOMEM, r_dst = dst, r_result_len = result_len0, r_crypto = c\<rparr>
          else
            and_then (memcpy dst 0 s (CHKSUM_LEN + IV_LEN) (unat dst_len)) (\<lambda>d1.
            and_then (do_rotate d1 dst_len (26 - rot_N c)) (\<lambda>d2.
              Returns \<lparr>r_ret = 0, r_dst = d2, r_result_len = dst_len, r_crypto = c\<rparr>)))"

definition rotate_encrypt ::
  "MY_CRYPTO \<Rightarrow> (nat \<Rightarrow> int) \<Rightarrow> u8 list option \<Rightarrow> size_t \<Rightarrow> u8 list \<Rightarrow> size_t \<Rightarrow> size_t
   \<Rightarrow> call_result outcome" where
  "rotate_encrypt my_crypto rnd src src_len dst dst_len result_len0 =
     (let c = my_crypto\<lparr>num_calls := num_calls my_crypto + 1\<rparr> in
      case src of
        None \<Rightarrow> Returns \<lparr>r_ret = 0, r_dst = dst, r_result_len = result_len0, r_crypto = c\<rparr>
      | Some s \<Rightarrow>
          if dst_len < src_len + of_nat CHKSUM_LEN + of_nat IV_LEN
          then Returns \<lparr>r_ret = ENOMEM, r_dst = dst, r_result_len = result_len0, r_crypto = c\<rparr>
          else
            and_then (memcpy dst (CHKSUM_LEN + IV_LEN) s 0 (unat src_len)) (\<lambda>d1.
            and_then (do_rotate (drop (CHKSUM_LEN + IV_LEN) d1) src_len (rot_N c)) (\<lambda>body.
              let d2 = take (CHKSUM_LEN + IV_LEN) d1 @ body;
                  d3 = make_cksum rnd d2;
                  d4 = take CHKSUM_LEN d3
                       @ make_iv (\<lambda>k. rnd (CHKSUM_LEN + k)) (drop CHKSUM_LEN d3)
              in Returns \<lparr>r_ret = 0, r_dst = d4, r_result_len = dst_len, r_crypto = c\<rparr>)))"

record sizing_result =
  s_ret :: int
  s_expansion_constant :: size_t
  s_crypto :: MY_CRYPTO

definition rotate_sizing :: "MY_CRYPTO \<Rightarrow> sizing_result" where
  "rotate_sizing my_crypto =
     \<lparr>s_ret = 0,
      s_expansion_constant = of_nat CHKSUM_LEN + of_nat IV_LEN,
      s_crypto = my_crypto\<lparr>num_calls := num_calls my_crypto + 1\<rparr>\<rparr>"

subsection \<open>Customize\<close>

text \<open>
  C strings: a \<open>string\<close> stands for the characters at a pointer, read up to the first
  NUL or the end of the list. \<open>strncmp_eq0 a b n\<close> is \<open>strncmp(a, b, n) == 0\<close> and
  \<open>strcmp_eq0 a b\<close> is \<open>strcmp(a, b) == 0\<close>.
\<close>

definition c_str :: "string \<Rightarrow> string" where
  "c_str s = takeWhile (\<lambda>c. c \<noteq> CHR 0x00) s"

definition strlen :: "string \<Rightarrow> nat" where
  "strlen s = length (c_str s)"

definition strncmp_eq0 :: "string \<Rightarrow> string \<Rightarrow> nat \<Rightarrow> bool" where
  "strncmp_eq0 a b n = (take n (c_str a) = take n (c_str b))"

definition strcmp_eq0 :: "string \<Rightarrow> string \<Rightarrow> bool" where
  "strcmp_eq0 a b = (c_str a = c_str b)"

text \<open>
  \<open>WT_CONFIG_ITEM\<close>, the members the callback reads: \<open>str\<close>, which points into the
  configuration text and is not terminated at \<open>len\<close>, and \<open>len\<close>.
\<close>

record WT_CONFIG_ITEM =
  item_str :: string
  item_len :: nat

definition ITEM_MATCHES :: "WT_CONFIG_ITEM \<Rightarrow> string \<Rightarrow> bool" where
  "ITEM_MATCHES config_item s =
     (strlen s = item_len config_item
      \<and> strncmp_eq0 (item_str config_item) s (item_len config_item))"

text \<open>
  \<open>config_get\<close> belongs to the host's extension API. A call is represented by what it
  gives back: its return value and the contents of the item afterwards (when the
  return value is not 0, the item is whatever the uninitialised local held).
\<close>

type_synonym config_get_result = "int \<times> WT_CONFIG_ITEM"

text \<open>
  What \<open>calloc\<close> and the two \<open>malloc\<close> calls give back: a pointer, or \<open>NULL\<close> with
  \<open>errno\<close> set to \<open>ENOMEM\<close>, the only failure POSIX gives them; the callback then
  returns \<open>errno\<close>.
\<close>

datatype alloc_result = Allocated addr | AllocFailed

record allocator =
  calloc_instance :: alloc_result
  malloc_keyid :: alloc_result
  malloc_password :: alloc_result

text \<open>
  The string that \<open>strncpy(p, item.str, item.len + 1); p[item.len] = '\0'\<close> leaves at
  \<open>p\<close>, when the lookup succeeded with a non-empty item.
\<close>

definition stashed :: "config_get_result \<Rightarrow> string option" where
  "stashed g =
     (if fst g = 0 \<and> item_len (snd g) \<noteq> 0
      then Some (take (item_len (snd g)) (c_str (item_str (snd g))))
      else None)"

text \<open>
  One "stash" block of \<open>rotate_customize\<close>: \<open>Inl errno\<close> when \<open>malloc\<close> fails, otherwise
  the heap and the pointer stored in the instance.
\<close>

definition stash :: "heap \<Rightarrow> config_get_result \<Rightarrow> alloc_result \<Rightarrow> int + heap \<times> addr option" where
  "stash h g m =
     (case stashed g of
        None \<Rightarrow> Inr (h, None)
      | Some s \<Rightarrow>
          (case m of
             AllocFailed \<Rightarrow> Inl ENOMEM
           | Allocated p \<Rightarrow> Inr (h\<lparr>strings := (strings h)(p \<mapsto> s)\<rparr>, Some p)))"

record customize_result =
  c_ret :: int
  c_heap :: heap
  c_customp :: "addr option"

text \<open>The code after the label \<open>err\<close>.\<close>

definition customize_err :: "heap \<Rightarrow> addr \<Rightarrow> MY_CRYPTO \<Rightarrow> addr option \<Rightarrow> customize_result outcome" where
  "customize_err h a mc customp0 =
     and_then (case keyid mc of None \<Rightarrow> Returns h | Some p \<Rightarrow> free_string h p) (\<lambda>h1.
     and_then (case password mc of None \<Rightarrow> Returns h1 | Some p \<Rightarrow> free_string h1 p) (\<lambda>h2.
     and_then (free_crypto h2 a) (\<lambda>h3.
       Returns \<lparr>c_ret = EPERM, c_heap = h3, c_customp = customp0\<rparr>)))"

text \<open>The successful end: \<open>++my_crypto->num_calls; *customp = &my_crypto->encryptor\<close>.\<close>

definition customize_ok :: "heap \<Rightarrow> addr \<Rightarrow> MY_CRYPTO \<Rightarrow> customize_result outcome" where
  "customize_ok h a mc =
     Returns \<lparr>c_ret = 0,
              c_heap = store_crypto h a (mc\<lparr>num_calls := num_calls mc + 1\<rparr>),
              c_customp = Some a\<rparr>"

text \<open>
  The key policy. \<open>pw\<close> is the string at \<open>my_crypto->password\<close> when that pointer is
  not \<open>NULL\<close>.
\<close>

definition customize_policy ::
  "heap \<Rightarrow> addr \<Rightarrow> MY_CRYPTO \<Rightarrow> WT_CONFIG_ITEM \<Rightarrow> string option \<Rightarrow> addr option
   \<Rightarrow> customize_result outcome" where
  "customize_policy h a mc kitem pw customp0 =
     (if ITEM_MATCHES kitem ''system'' then
        (if (case pw of None \<Rightarrow> True | Some s \<Rightarrow> \<not> strcmp_eq0 s SYS_PW)
         then customize_err h a mc customp0
         else customize_ok h a (mc\<lparr>rot_N := 13\<rparr>))
      else if ITEM_MATCHES kitem USER1_KEYID then customize_ok h a (mc\<lparr>rot_N := 4\<rparr>)
      else if ITEM_MATCHES kitem USER2_KEYID then customize_ok h a (mc\<lparr>rot_N := 19\<rparr>)
      else Returns \<lparr>c_ret = EINVAL, c_heap = h, c_customp = customp0\<rparr>)"

text \<open>
  \<open>rotate_customize\<close>: \<open>orig_crypto\<close> is the structure behind the \<open>encryptor\<close>
  argument, \<open>kget\<close> and \<open>sget\<close> are the two \<open>config_get\<close> calls, \<open>customp0\<close> is
  \<open>*customp\<close> before the call.
\<close>

definition rotate_customize ::
  "heap \<Rightarrow> MY_CRYPTO \<Rightarrow> config_get_result \<Rightarrow> config_get_result \<Rightarrow> allocator \<Rightarrow> addr option
   \<Rightarrow> customize_result outcome" where
  "rotate_customize h orig_crypto kget sget al customp0 =
     (case calloc_instance al of
        AllocFailed \<Rightarrow> Returns \<lparr>c_ret = ENOMEM, c_heap = h, c_customp = customp0\<rparr>
      | Allocated a \<Rightarrow>
          (let mc0 = orig_crypto\<lparr>keyid := None, password := None\<rparr>;
               h0 = store_crypto h a mc0
           in (case stash h0 kget (malloc_keyid al) of
                 Inl e \<Rightarrow> Returns \<lparr>c_ret = e, c_heap = h0, c_customp = customp0\<rparr>
               | Inr (h1, kp) \<Rightarrow>
                   (let mc1 = mc0\<lparr>keyid := kp\<rparr>;
                        h1' = store_crypto h1 a mc1
                    in (case stash h1' sget (malloc_password al) of
                          Inl e \<Rightarrow> Returns \<lparr>c_ret = e, c_heap = h1', c_customp = customp0\<rparr>
                        | Inr (h2, pp) \<Rightarrow>
                            (let mc2 = mc1\<lparr>password := pp\<rparr>;
                                 h2' = store_crypto h2 a mc2
                             in customize_policy h2' a mc2 (snd kget)
                                  (if pp = None then None else stashed sget) customp0))))))"

subsection \<open>Terminate\<close>

text \<open>
  \<open>rotate_terminate\<close> up to its last \<open>if\<close>: count the call, release the strings and
  clear the pointers.
\<close>

definition terminate_release :: "heap \<Rightarrow> addr \<Rightarrow> heap outcome" where
  "terminate_release h encryptor =
     (case cryptos h encryptor of
        None \<Rightarrow> Fault
      | Some my_crypto \<Rightarrow>
          let mc1 = my_crypto\<lparr>num_calls := num_calls my_crypto + 1\<rparr> in
          and_then (case password mc1 of None \<Rightarrow> Returns h | Some p \<Rightarrow> free_string h p) (\<lambda>h1.
          and_then (case keyid mc1 of None \<Rightarrow> Returns h1 | Some p \<Rightarrow> free_string h1 p) (\<lambda>h2.
            Returns (store_crypto h2 encryptor (mc1\<lparr>password := None, keyid := None\<rparr>)))))"

definition rotate_terminate :: "heap \<Rightarrow> addr \<Rightarrow> (int \<times> heap) outcome" where
  "rotate_terminate h encryptor =
     and_then (terminate_release h encryptor) (\<lambda>h3.
       if encryptor \<noteq> my_crypto_global
       then and_then (free_crypto h3 encryptor) (\<lambda>h4. Returns (0, h4))
       else Returns (0, h3))"

section \<open>Properties\<close>

subsection \<open>The rotation of one byte\<close>

lemma islower_unat: "islower b \<longleftrightarrow> 97 \<le> unat b \<and> unat b \<le> 122"
  by (simp add: islower_def word_le_nat_alt)

lemma isalpha_unat: "isalpha b \<longleftrightarrow> (65 \<le> unat b \<and> unat b \<le> 90) \<or> (97 \<le> unat b \<and> unat b \<le> 122)"
  by (simp add: isalpha_def word_le_nat_alt)

lemma unat_rot_u32:
  fixes b :: u8 and rotn :: u32
  assumes "k \<le> unat b" "unat rotn \<le> 26" "k \<le> 97"
  shows "unat ((ucast b - of_nat k + rotn) mod 26 + of_nat k :: u32) = (unat b - k + unat rotn) mod 26 + k"
proof -
  have ub: "unat b < 256" proof -
    have "unat b < 2 ^ LENGTH(8)" by (rule unsigned_less)
    then show ?thesis by simp
  qed
  have 1: "unat (ucast b :: u32) = unat b" using ub by (simp add: unsigned_ucast_eq take_bit_eq_mod)
  have k: "unat (of_nat k :: u32) = k" using assms(3) by (simp add: unat_of_nat)
  have 2: "unat (ucast b - of_nat k :: u32) = unat b - k"
    using assms(1) 1 k by (simp add: unat_sub word_le_nat_alt)
  have 3: "unat (ucast b - of_nat k + rotn :: u32) = unat b - k + unat rotn"
    using 2 ub assms(2) by (simp add: unat_add_lem [THEN iffD1])
  have 4: "unat ((ucast b - of_nat k + rotn) mod 26 :: u32) = (unat b - k + unat rotn) mod 26"
    using 3 by (simp add: unat_mod)
  have "(unat b - k + unat rotn) mod 26 < 26" by simp
  then show ?thesis using 4 k assms(3) by (simp add: unat_add_lem [THEN iffD1])
qed


lemma unat_ucast_small:
  fixes w :: u32
  assumes "unat w < 256"
  shows "unat (ucast w :: u8) = unat w"
  using assms by (simp add: unsigned_ucast_eq take_bit_eq_mod)

lemma rb_lower:
  assumes "islower b" "unat rotn \<le> 26"
  shows "unat (rotate_byte b rotn) = (unat b - 97 + unat rotn) mod 26 + 97"
proof -
  have b: "97 \<le> unat b" "unat b \<le> 122" using assms(1) by (simp_all add: islower_unat)
  have e: "unat ((ucast b - 97 + rotn) mod 26 + 97 :: u32) = (unat b - 97 + unat rotn) mod 26 + 97"
    using unat_rot_u32 [of 97 b rotn] b assms(2) by simp
  have "(unat b - 97 + unat rotn) mod 26 < 26" by simp
  then have "unat ((ucast b - 97 + rotn) mod 26 + 97 :: u32) < 256" using e by simp
  then have "unat (ucast ((ucast b - 97 + rotn) mod 26 + 97 :: u32) :: u8) = (unat b - 97 + unat rotn) mod 26 + 97"
    using e by (simp only: unat_ucast_small)
  moreover have "rotate_byte b rotn = ucast ((ucast b - 97 + rotn) mod 26 + 97 :: u32)"
    using assms(1) b by (simp add: rotate_byte_def isalpha_unat)
  ultimately show ?thesis by simp
qed

lemma rb_upper:
  assumes "isalpha b" "\<not> islower b" "unat rotn \<le> 26"
  shows "unat (rotate_byte b rotn) = (unat b - 65 + unat rotn) mod 26 + 65"
proof -
  have b: "65 \<le> unat b" "unat b \<le> 90" using assms(1,2) by (auto simp add: islower_unat isalpha_unat)
  have e: "unat ((ucast b - 65 + rotn) mod 26 + 65 :: u32) = (unat b - 65 + unat rotn) mod 26 + 65"
    using unat_rot_u32 [of 65 b rotn] b assms(3) by simp
  have "(unat b - 65 + unat rotn) mod 26 < 26" by simp
  then have "unat ((ucast b - 65 + rotn) mod 26 + 65 :: u32) < 256" using e by simp
  then have "unat (ucast ((ucast b - 65 + rotn) mod 26 + 65 :: u32) :: u8) = (unat b - 65 + unat rotn) mod 26 + 65"
    using e by (simp only: unat_ucast_small)
  moreover have "rotate_byte b rotn = ucast ((ucast b - 65 + rotn) mod 26 + 65 :: u32)"
    using assms(1,2) by (simp add: rotate_byte_def)
  ultimately show ?thesis by simp
qed

lemma rb_other: "\<not> isalpha b \<Longrightarrow> rotate_byte b rotn = b"
  by (simp add: rotate_byte_def)

lemma rotate_byte_inverse:
  assumes "1 \<le> unat p" "unat p \<le> 26"
  shows "rotate_byte (rotate_byte b p) (26 - p) = b"
proof -
  have q: "unat (26 - p) = 26 - unat p"
    using assms by (simp add: unat_sub word_le_nat_alt)
  have q26: "unat (26 - p) \<le> 26" using q by simp
  show ?thesis
  proof (cases "isalpha b")
    case False
    then show ?thesis by (simp add: rb_other)
  next
    case True
    show ?thesis
    proof (cases "islower b")
      case l: True
      have b: "97 \<le> unat b" "unat b \<le> 122" using l by (simp_all add: islower_unat)
      let ?c = "rotate_byte b p"
      have c: "unat ?c = (unat b - 97 + unat p) mod 26 + 97" using rb_lower [OF l assms(2)] .
      define m where "m = (unat b - 97 + unat p) mod 26"
      have "m < 26" unfolding m_def by simp
      moreover have "unat ?c = m + 97" using c unfolding m_def .
      ultimately have lc: "islower ?c" by (simp add: islower_unat)
      have "unat (rotate_byte ?c (26 - p)) = (unat ?c - 97 + unat (26 - p)) mod 26 + 97"
        using rb_lower [OF lc q26] .
      also have "\<dots> = ((unat b - 97 + unat p) mod 26 + (26 - unat p)) mod 26 + 97"
        using c q by simp
      also have "\<dots> = (unat b - 97 + unat p + (26 - unat p)) mod 26 + 97"
        by (simp add: mod_add_left_eq)
      also have "\<dots> = (unat b - 97 + 26) mod 26 + 97" using assms by simp
      also have "\<dots> = (unat b - 97) mod 26 + 97" by (simp only: mod_add_self2)
      also have "\<dots> = unat b" using b by simp
      finally show ?thesis by (simp add: word_unat_eq_iff)
    next
      case u: False
      have b: "65 \<le> unat b" "unat b \<le> 90" using True u by (auto simp add: islower_unat isalpha_unat)
      let ?c = "rotate_byte b p"
      have c: "unat ?c = (unat b - 65 + unat p) mod 26 + 65" using rb_upper [OF True u assms(2)] .
      define m where "m = (unat b - 65 + unat p) mod 26"
      have "m < 26" unfolding m_def by simp
      moreover have "unat ?c = m + 65" using c unfolding m_def .
      ultimately have lc: "isalpha ?c" "\<not> islower ?c" by (simp_all add: islower_unat isalpha_unat)
      have "unat (rotate_byte ?c (26 - p)) = (unat ?c - 65 + unat (26 - p)) mod 26 + 65"
        using rb_upper [OF lc q26] .
      also have "\<dots> = ((unat b - 65 + unat p) mod 26 + (26 - unat p)) mod 26 + 65"
        using c q by simp
      also have "\<dots> = (unat b - 65 + unat p + (26 - unat p)) mod 26 + 65"
        by (simp add: mod_add_left_eq)
      also have "\<dots> = (unat b - 65 + 26) mod 26 + 65" using assms by simp
      also have "\<dots> = (unat b - 65) mod 26 + 65" by (simp only: mod_add_self2)
      also have "\<dots> = unat b" using b by simp
      finally show ?thesis by (simp add: word_unat_eq_iff)
    qed
  qed
qed

subsection \<open>The loop of do\_rotate\<close>

lemma ucast_u32_less:
  fixes i :: u32 and len :: size_t
  shows "(ucast i < len) = (unat i < unat len)"
proof -
  have "unat i < 2 ^ LENGTH(32)" by (rule unsigned_less)
  then have "unat (ucast i :: size_t) = unat i"
    by (simp add: unsigned_ucast_eq take_bit_eq_mod)
  then show ?thesis by (simp add: word_less_nat_alt)
qed

lemma unat_u32_Suc:
  fixes i :: u32
  assumes "unat i < n" "n < 2 ^ 32"
  shows "unat (i + 1) = Suc (unat i)"
proof -
  have "unat i + unat (1 :: u32) < 2 ^ LENGTH(32)" using assms by simp
  then have "unat (i + 1) = unat i + unat (1 :: u32)" by (simp only: unat_add_lem [THEN iffD1])
  then show ?thesis by simp
qed

lemma do_rotate_loop_returns:
  assumes "unat len < 2 ^ 32" "unat i \<le> unat len" "unat len \<le> length buf"
  shows "do_rotate_loop i buf len rotn =
         Some (Returns (take (unat i) buf
                        @ map (\<lambda>b. rotate_byte b rotn) (take (unat len - unat i) (drop (unat i) buf))
                        @ drop (unat len) buf))"
  using assms
proof (induction "unat len - unat i" arbitrary: i buf)
  case 0
  then have "unat i = unat len" by simp
  then show ?case
    by (subst do_rotate_loop.simps) (simp add: ucast_u32_less)
next
  case (Suc k)
  let ?f = "\<lambda>b. rotate_byte b rotn"
  let ?j = "unat i"
  let ?buf' = "buf[?j := ?f (buf ! ?j)]"
  have lt: "?j < unat len" using Suc.hyps(2) by simp
  have inb: "?j < length buf" using lt Suc.prems(3) by simp
  have s: "unat (i + 1) = Suc ?j" using unat_u32_Suc [OF lt Suc.prems(1)] .
  have k: "k = unat len - unat (i + 1)" using Suc.hyps(2) s by simp
  have ih: "do_rotate_loop (i + 1) ?buf' len rotn =
         Some (Returns (take (Suc ?j) ?buf'
                        @ map ?f (take (unat len - Suc ?j) (drop (Suc ?j) ?buf'))
                        @ drop (unat len) ?buf'))"
    using Suc.hyps(1) [OF k Suc.prems(1)] lt Suc.prems(3) s by simp
  have t: "take (Suc ?j) ?buf' = take ?j buf @ [?f (buf ! ?j)]"
    using inb by (simp add: take_Suc_conv_app_nth)
  have d1: "drop (Suc ?j) ?buf' = drop (Suc ?j) buf" by simp
  have d2: "drop (unat len) ?buf' = drop (unat len) buf" using lt by simp
  have r: "take (unat len - ?j) (drop ?j buf) = buf ! ?j # take (unat len - Suc ?j) (drop (Suc ?j) buf)"
  proof -
    have "drop ?j buf = buf ! ?j # drop (Suc ?j) buf" using inb by (simp add: Cons_nth_drop_Suc)
    moreover have "unat len - ?j = Suc (unat len - Suc ?j)" using lt by simp
    ultimately show ?thesis by simp
  qed
  have "do_rotate_loop i buf len rotn = do_rotate_loop (i + 1) ?buf' len rotn"
    using lt inb by (subst do_rotate_loop.simps) (simp add: ucast_u32_less)
  then show ?case by (simp only: ih t d1 d2 r) simp
qed

lemma do_rotate_returns:
  assumes "unat len < 2 ^ 32" "unat len \<le> length buf"
  shows "do_rotate buf len rotn =
         Returns (map (\<lambda>b. rotate_byte b rotn) (take (unat len) buf) @ drop (unat len) buf)"
  using do_rotate_loop_returns [of len 0 buf rotn] assms
  by (simp add: do_rotate_def)

lemma do_rotate_loop_never_returns:
  assumes "do_rotate_loop i buf len rotn = Some y"
  shows "\<not> (2 ^ 32 \<le> unat len \<and> unat len \<le> length buf)"
proof (rule do_rotate_loop.raw_induct
    [where P = "\<lambda>i buf len rotn y. \<not> (2 ^ 32 \<le> unat len \<and> unat len \<le> length buf)", OF _ assms])
  fix f :: "u32 \<Rightarrow> u8 list \<Rightarrow> size_t \<Rightarrow> u32 \<Rightarrow> u8 list outcome option"
  fix i buf len rotn y
  assume ih: "\<And>i buf len rotn y. f i buf len rotn = Some y \<Longrightarrow>
               \<not> (2 ^ 32 \<le> unat len \<and> unat len \<le> length buf)"
  assume eq: "(if ucast i < len
        then if unat i < length buf
             then f (i + 1) (buf[unat i := rotate_byte (buf ! unat i) rotn]) len rotn
             else Some Fault
        else Some (Returns buf)) = Some y"
  show "\<not> (2 ^ 32 \<le> unat len \<and> unat len \<le> length buf)"
  proof
    assume a: "2 ^ 32 \<le> unat len \<and> unat len \<le> length buf"
    have "unat i < 2 ^ LENGTH(32)" by (rule unsigned_less)
    then have lt: "unat i < unat len" using a by simp
    then have inb: "unat i < length buf" using a by simp
    from eq lt inb
    have "f (i + 1) (buf[unat i := rotate_byte (buf ! unat i) rotn]) len rotn = Some y"
      by (simp add: ucast_u32_less)
    from ih [OF this] a show False by simp
  qed
qed

lemma do_rotate_diverges:
  assumes "2 ^ 32 \<le> unat len" "unat len \<le> length buf"
  shows "do_rotate buf len rotn = Diverges"
proof (cases "do_rotate_loop 0 buf len rotn")
  case None
  then show ?thesis by (simp add: do_rotate_def)
next
  case (Some y)
  then show ?thesis using do_rotate_loop_never_returns [OF Some] assms by simp
qed

subsection \<open>Encrypt and decrypt on well-formed buffers\<close>

lemma fold_update_upt:
  "n \<le> length d \<Longrightarrow> fold (\<lambda>i d. d[i := f i]) [0..<n] d = map f [0..<n] @ drop n d"
proof (induction n)
  case 0
  then show ?case by simp
next
  case (Suc n)
  then have n: "n < length d" by simp
  have "fold (\<lambda>i d. d[i := f i]) [0..<Suc n] d = (map f [0..<n] @ drop n d)[n := f n]"
    using Suc by simp
  also have "\<dots> = map f [0..<n] @ (drop n d)[0 := f n]"
    by (simp add: list_update_append)
  also have "drop n d = d ! n # drop (Suc n) d" using n by (simp add: Cons_nth_drop_Suc)
  finally show ?case by simp
qed

lemma unat_plus_hdr:
  fixes src_len :: size_t
  assumes "unat src_len + 20 < 2 ^ 64"
  shows "unat (src_len + of_nat CHKSUM_LEN + of_nat IV_LEN) = unat src_len + 20"
proof -
  have e: "src_len + of_nat CHKSUM_LEN + of_nat IV_LEN = src_len + 20"
    by (simp add: CHKSUM_LEN_def IV_LEN_def)
  have "unat src_len + unat (20 :: size_t) < 2 ^ LENGTH(64)" using assms by simp
  then have "unat (src_len + 20) = unat src_len + unat (20 :: size_t)"
    by (simp only: unat_add_lem [THEN iffD1])
  then show ?thesis unfolding e by simp
qed

lemma unat_minus_hdr:
  fixes src_len :: size_t
  shows "unat (src_len - of_nat CHKSUM_LEN - of_nat IV_LEN) =
         (if 20 \<le> unat src_len then unat src_len - 20 else 2 ^ 64 - 20 + unat src_len)"
proof -
  have e: "src_len - of_nat CHKSUM_LEN - of_nat IV_LEN = src_len - 20"
    by (simp add: CHKSUM_LEN_def IV_LEN_def)
  have "unat (src_len - 20) = (if unat (20 :: size_t) \<le> unat src_len then unat src_len - unat (20 :: size_t)
          else unat src_len + 2 ^ size src_len - unat (20 :: size_t))"
    by (rule unat_sub_if_size)
  then show ?thesis unfolding e by (simp add: word_size)
qed

lemma header_bytes:
  assumes "20 \<le> length d"
  shows "take CHKSUM_LEN (make_cksum rnd d)
           @ make_iv (\<lambda>k. rnd (CHKSUM_LEN + k)) (drop CHKSUM_LEN (make_cksum rnd d))
         = map (\<lambda>i. word_of_int (rnd i)) [0..<4]
           @ map (\<lambda>k. word_of_int (rnd (4 + k))) [0..<16] @ drop 20 d"
proof -
  have c: "make_cksum rnd d = map (\<lambda>i. word_of_int (rnd i)) [0..<4] @ drop 4 d"
    unfolding make_cksum_def CHKSUM_LEN_def using assms by (simp only: fold_update_upt)
  have l: "length (map (\<lambda>i. word_of_int (rnd i) :: u8) [0..<4]) = 4" by simp
  have t: "take 4 (make_cksum rnd d) = map (\<lambda>i. word_of_int (rnd i)) [0..<4]"
    unfolding c using l by (simp only: take_append) simp
  have r: "drop 4 (make_cksum rnd d) = drop 4 d"
    unfolding c using l by (simp only: drop_append) simp
  have "16 \<le> length (drop 4 d)" using assms by simp
  then have i: "make_iv (\<lambda>k. rnd (4 + k)) (drop 4 d)
      = map (\<lambda>k. word_of_int (rnd (4 + k))) [0..<16] @ drop 16 (drop 4 d)"
    unfolding make_iv_def IV_LEN_def by (simp only: fold_update_upt)
  show ?thesis unfolding CHKSUM_LEN_def t r i by simp
qed

lemma length_header: "length (header rnd) = 20"
  by (simp add: header_def)

lemma rotate_encrypt_returns:
  assumes "unat src_len < 2 ^ 32" "unat src_len \<le> length s"
    and "unat src_len + 20 \<le> unat dst_len" "unat src_len + 20 \<le> length dst"
  shows "rotate_encrypt c rnd (Some s) src_len dst dst_len rl0 =
         Returns \<lparr>r_ret = 0,
                  r_dst = header rnd @ map (\<lambda>b. rotate_byte b (rot_N c)) (take (unat src_len) s)
                          @ drop (20 + unat src_len) dst,
                  r_result_len = dst_len,
                  r_crypto = c\<lparr>num_calls := num_calls c + 1\<rparr>\<rparr>"
proof -
  let ?n = "unat src_len"
  let ?f = "\<lambda>b. rotate_byte b (rot_N c)"
  have "unat dst_len < 2 ^ LENGTH(64)" by (rule unsigned_less)
  then have nw: "?n + 20 < 2 ^ 64" using assms(3) by simp
  have chk: "\<not> dst_len < src_len + of_nat CHKSUM_LEN + of_nat IV_LEN"
    using assms(3) unat_plus_hdr [OF nw] by (simp add: word_less_nat_alt)
  let ?d1 = "take 20 dst @ take ?n s @ drop (20 + ?n) dst"
  have m: "memcpy dst 20 s 0 ?n = Returns ?d1"
    using assms(2,4) by (simp add: memcpy_def)
  have l20: "length (take 20 dst) = 20" using assms(4) by simp
  have dr: "drop 20 ?d1 = take ?n s @ drop (20 + ?n) dst"
    using l20 by (simp only: drop_append) simp
  have tk: "take 20 ?d1 = take 20 dst"
    using l20 by (simp only: take_append) simp
  have ln: "length (take ?n s) = ?n" using assms(2) by simp
  have rot: "do_rotate (take ?n s @ drop (20 + ?n) dst) src_len (rot_N c)
             = Returns (map ?f (take ?n s) @ drop (20 + ?n) dst)"
  proof -
    have "?n \<le> length (take ?n s @ drop (20 + ?n) dst)" using ln by simp
    from do_rotate_returns [OF assms(1) this, of "rot_N c"]
    show ?thesis using ln by (simp add: add.commute)
  qed
  let ?d2 = "take 20 dst @ map ?f (take ?n s) @ drop (20 + ?n) dst"
  have "20 \<le> length ?d2" using l20 by simp
  from header_bytes [OF this, of rnd]
  have h: "take CHKSUM_LEN (make_cksum rnd ?d2)
           @ make_iv (\<lambda>k. rnd (CHKSUM_LEN + k)) (drop CHKSUM_LEN (make_cksum rnd ?d2))
         = header rnd @ map ?f (take ?n s) @ drop (20 + ?n) dst"
    unfolding header_def using l20 by simp
  have s20: "CHKSUM_LEN + IV_LEN = 20" by (simp add: CHKSUM_LEN_def IV_LEN_def)
  show ?thesis
    unfolding rotate_encrypt_def Let_def
    using chk by (simp add: s20 m and_then_def dr tk rot h del: drop_append take_append)
qed

lemma rotate_decrypt_returns:
  assumes "unat dst_len < 2 ^ 32" "20 \<le> unat src_len" "unat src_len - 20 \<le> unat dst_len"
    and "20 + unat dst_len \<le> length s" "unat dst_len \<le> length dst"
  shows "rotate_decrypt c (Some s) src_len dst dst_len rl0 =
         Returns \<lparr>r_ret = 0,
                  r_dst = map (\<lambda>b. rotate_byte b (26 - rot_N c)) (take (unat dst_len) (drop 20 s))
                          @ drop (unat dst_len) dst,
                  r_result_len = dst_len,
                  r_crypto = c\<lparr>num_calls := num_calls c + 1\<rparr>\<rparr>"
proof -
  let ?n = "unat dst_len"
  let ?f = "\<lambda>b. rotate_byte b (26 - rot_N c)"
  have chk: "\<not> dst_len < src_len - of_nat CHKSUM_LEN - of_nat IV_LEN"
    using assms(2,3) by (simp add: word_less_nat_alt unat_minus_hdr)
  let ?d1 = "take ?n (drop 20 s) @ drop ?n dst"
  have s20: "CHKSUM_LEN + IV_LEN = 20" by (simp add: CHKSUM_LEN_def IV_LEN_def)
  have m: "memcpy dst 0 s 20 ?n = Returns ?d1"
    using assms(4,5) by (simp add: memcpy_def)
  have ln: "length (take ?n (drop 20 s)) = ?n" using assms(4) by simp
  have rot: "do_rotate ?d1 dst_len (26 - rot_N c) = Returns (map ?f (take ?n (drop 20 s)) @ drop ?n dst)"
  proof -
    have "?n \<le> length ?d1" using ln by simp
    from do_rotate_returns [OF assms(1) this, of "26 - rot_N c"]
    show ?thesis using ln by simp
  qed
  show ?thesis
    unfolding rotate_decrypt_def Let_def
    using chk by (simp add: s20 m and_then_def rot del: drop_append take_append)
qed

lemma rotate_encrypt_diverges:
  assumes "2 ^ 32 \<le> unat src_len" "unat src_len \<le> length s"
    and "unat src_len + 20 \<le> unat dst_len" "unat src_len + 20 \<le> length dst"
  shows "rotate_encrypt c rnd (Some s) src_len dst dst_len rl0 = Diverges"
proof -
  let ?n = "unat src_len"
  have "unat dst_len < 2 ^ LENGTH(64)" by (rule unsigned_less)
  then have nw: "?n + 20 < 2 ^ 64" using assms(3) by simp
  have chk: "\<not> dst_len < src_len + of_nat CHKSUM_LEN + of_nat IV_LEN"
    using assms(3) unat_plus_hdr [OF nw] by (simp add: word_less_nat_alt)
  let ?d1 = "take 20 dst @ take ?n s @ drop (20 + ?n) dst"
  have m: "memcpy dst 20 s 0 ?n = Returns ?d1"
    using assms(2,4) by (simp add: memcpy_def)
  have l20: "length (take 20 dst) = 20" using assms(4) by simp
  have dr: "drop 20 ?d1 = take ?n s @ drop (20 + ?n) dst"
    using l20 by (simp only: drop_append) simp
  have ln: "length (take ?n s) = ?n" using assms(2) by simp
  have "?n \<le> length (drop 20 ?d1)" unfolding dr using ln by simp
  from do_rotate_diverges [OF assms(1) this]
  have rot: "do_rotate (take ?n s @ drop (20 + ?n) dst) src_len (rot_N c) = Diverges"
    unfolding dr .
  have s20: "CHKSUM_LEN + IV_LEN = 20" by (simp add: CHKSUM_LEN_def IV_LEN_def)
  show ?thesis
    unfolding rotate_encrypt_def Let_def
    using chk by (simp add: s20 m and_then_def dr rot del: drop_append take_append)
qed


lemma header_const: "header (\<lambda>k. v) = replicate 20 (word_of_int v)"
  by (simp add: header_def map_replicate_const flip: replicate_add)

text \<open>
  With a capacity above \<open>src_len - 20\<close>, \<open>rotate_decrypt\<close> copies \<open>dst_len\<close> bytes from
  behind the header: when the source does not hold that many, it reads past its end.
\<close>

lemma rotate_decrypt_reads_past_source:
  assumes "20 \<le> unat src_len" "unat src_len - 20 \<le> unat dst_len"
    and "length s < 20 + unat dst_len"
  shows "rotate_decrypt c (Some s) src_len dst dst_len rl0 = Fault"
proof -
  have chk: "\<not> dst_len < src_len - of_nat CHKSUM_LEN - of_nat IV_LEN"
    using assms(1,2) by (simp add: word_less_nat_alt unat_minus_hdr)
  have s20: "CHKSUM_LEN + IV_LEN = 20" by (simp add: CHKSUM_LEN_def IV_LEN_def)
  have "memcpy dst 0 s 20 (unat dst_len) = Fault"
    using assms(3) by (simp add: memcpy_def)
  then show ?thesis
    unfolding rotate_decrypt_def Let_def using chk by (simp add: s20 and_then_def)
qed

subsection \<open>C strings and configuration items\<close>

lemma strlen_names:
  "strlen ''system'' = 6" "strlen USER1_KEYID = 5" "strlen USER2_KEYID = 5" "strlen SYS_PW = 15"
  by (simp_all add: strlen_def c_str_def USER1_KEYID_def USER2_KEYID_def SYS_PW_def)

lemma c_str_SYS_PW: "c_str SYS_PW = SYS_PW"
  by (simp add: c_str_def SYS_PW_def)

lemma take_15_SYS_PW: "take 15 (c_str SYS_PW) = SYS_PW"
  unfolding c_str_SYS_PW by (simp add: SYS_PW_def)

lemma c_str_take: "c_str (take n (c_str s)) = take n (c_str s)"
proof -
  have "x \<noteq> CHR 0x00" if "x \<in> set (take n (c_str s))" for x
  proof -
    from that have "x \<in> set (c_str s)" by (rule in_set_takeD)
    then show ?thesis unfolding c_str_def by (rule set_takeWhileD [THEN conjunct2])
  qed
  then have "\<forall>x\<in>set (take n (c_str s)). x \<noteq> CHR 0x00" by blast
  then show ?thesis
    unfolding c_str_def by (rule takeWhile_eq_all_conv [THEN iffD2])
qed


lemma c_str_stashed: "stashed g = Some s \<Longrightarrow> c_str s = s"
  by (auto simp add: stashed_def c_str_take split: if_splits)

lemma strcmp_stashed:
  "stashed g = Some s \<Longrightarrow> strcmp_eq0 s SYS_PW \<longleftrightarrow> s = SYS_PW"
  by (simp add: strcmp_eq0_def c_str_stashed c_str_SYS_PW)


lemma stashed_differing:
  assumes "item_len (snd g) \<le> strlen (item_str (snd g))" "\<not> ITEM_MATCHES (snd g) SYS_PW"
  shows "stashed g \<noteq> Some SYS_PW"
proof
  assume a: "stashed g = Some SYS_PW"
  then have t: "take (item_len (snd g)) (c_str (item_str (snd g))) = SYS_PW"
    by (simp add: stashed_def split: if_splits)
  have "length SYS_PW = 15" by (simp add: SYS_PW_def)
  then have "length (take (item_len (snd g)) (c_str (item_str (snd g)))) = 15"
    by (simp only: t)
  then have l: "item_len (snd g) = 15" using assms(1) by (simp add: strlen_def)
  have "take 15 (c_str (item_str (snd g))) = take 15 (c_str SYS_PW)"
    using t unfolding l by (simp only: take_15_SYS_PW)
  then have "ITEM_MATCHES (snd g) SYS_PW"
    unfolding ITEM_MATCHES_def strncmp_eq0_def l by (simp add: strlen_names)
  then show False using assms(2) by simp
qed

lemma empty_item_matches_none:
  assumes "item_len kitem = 0"
  shows "\<not> ITEM_MATCHES kitem ''system''" "\<not> ITEM_MATCHES kitem USER1_KEYID"
    "\<not> ITEM_MATCHES kitem USER2_KEYID"
  using assms by (simp_all add: ITEM_MATCHES_def strlen_names)

lemma user_not_system:
  "ITEM_MATCHES kitem USER1_KEYID \<Longrightarrow> \<not> ITEM_MATCHES kitem ''system''"
  "ITEM_MATCHES kitem USER2_KEYID \<Longrightarrow> \<not> ITEM_MATCHES kitem ''system''"
  unfolding ITEM_MATCHES_def strlen_names by simp_all

subsection \<open>Customize and terminate on the heap\<close>

lemma stash_allocated:
  "stash h g (Allocated p) =
     Inr (case stashed g of None \<Rightarrow> (h, None)
          | Some s \<Rightarrow> (h\<lparr>strings := (strings h)(p \<mapsto> s)\<rparr>, Some p))"
  by (simp add: stash_def split: option.splits)

lemma rotate_customize_policy:
  assumes "calloc_instance al = Allocated a" "malloc_keyid al = Allocated k"
    "malloc_password al = Allocated q"
  shows "rotate_customize h orig kget sget al customp0
         = customize_policy
             (\<lparr>cryptos = (cryptos h)(a \<mapsto>
                    orig\<lparr>keyid := (if stashed kget = None then None else Some k),
                          password := (if stashed sget = None then None else Some q)\<rparr>),
                 strings = (case stashed sget of None \<Rightarrow> (\<lambda>m. m) | Some s \<Rightarrow> (\<lambda>m. m(q \<mapsto> s)))
                              ((case stashed kget of None \<Rightarrow> (\<lambda>m. m) | Some t \<Rightarrow> (\<lambda>m. m(k \<mapsto> t)))
                                 (strings h))\<rparr>)
             a
             (orig\<lparr>keyid := (if stashed kget = None then None else Some k),
                   password := (if stashed sget = None then None else Some q)\<rparr>)
             (snd kget) (stashed sget) customp0"
proof (cases "stashed kget")
  case kn: None
  show ?thesis
  proof (cases "stashed sget")
    case None
    then show ?thesis using kn assms
      by (cases h) (simp add: rotate_customize_def stash_allocated store_crypto_def Let_def)
  next
    case (Some s)
    then show ?thesis using kn assms
      by (cases h) (simp add: rotate_customize_def stash_allocated store_crypto_def Let_def)
  qed
next
  case ks: (Some t)
  show ?thesis
  proof (cases "stashed sget")
    case None
    then show ?thesis using ks assms
      by (cases h) (simp add: rotate_customize_def stash_allocated store_crypto_def Let_def)
  next
    case (Some s)
    then show ?thesis using ks assms
      by (cases h) (simp add: rotate_customize_def stash_allocated store_crypto_def Let_def)
  qed
qed

lemma customize_eperm:
  assumes "calloc_instance al = Allocated a" "malloc_keyid al = Allocated k"
    "malloc_password al = Allocated q" "k \<noteq> q"
    and "ITEM_MATCHES (snd kget) ''system''" "stashed sget \<noteq> Some SYS_PW"
  shows "rotate_customize h orig kget sget al customp0 =
         Returns \<lparr>c_ret = EPERM,
                  c_heap = \<lparr>cryptos = (cryptos h)(a := None),
                            strings = (case stashed sget of None \<Rightarrow> (\<lambda>m. m) | Some s \<Rightarrow> (\<lambda>m. m(q := None)))
                                        ((case stashed kget of None \<Rightarrow> (\<lambda>m. m) | Some t \<Rightarrow> (\<lambda>m. m(k := None)))
                                           (strings h))\<rparr>,
                  c_customp = customp0\<rparr>"
proof (cases "stashed kget")
  case kn: None
  show ?thesis
  proof (cases "stashed sget")
    case None
    then show ?thesis using kn assms(5)
      by (simp add: rotate_customize_policy [OF assms(1-3)] customize_policy_def customize_err_def
          and_then_def free_crypto_def)
  next
    case (Some s)
    then have "\<not> strcmp_eq0 s SYS_PW" using assms(6) by (simp add: strcmp_stashed)
    then show ?thesis using kn Some assms(5)
      by (simp add: rotate_customize_policy [OF assms(1-3)] customize_policy_def customize_err_def
          and_then_def free_crypto_def free_string_def)
  qed
next
  case ks: (Some t)
  show ?thesis
  proof (cases "stashed sget")
    case None
    then show ?thesis using ks assms(5)
      by (simp add: rotate_customize_policy [OF assms(1-3)] customize_policy_def customize_err_def
          and_then_def free_crypto_def free_string_def)
  next
    case (Some s)
    then have "\<not> strcmp_eq0 s SYS_PW" using assms(6) by (simp add: strcmp_stashed)
    then show ?thesis using ks Some assms(4,5)
      by (simp add: rotate_customize_policy [OF assms(1-3)] customize_policy_def customize_err_def
          and_then_def free_crypto_def free_string_def fun_upd_twist)
  qed
qed

text \<open>With fresh blocks, the \<open>EPERM\<close> path gives the heap back as it was.\<close>

lemma customize_eperm_releases:
  assumes "calloc_instance al = Allocated a" "malloc_keyid al = Allocated k"
    "malloc_password al = Allocated q" "k \<noteq> q"
    and "cryptos h a = None" "strings h k = None" "strings h q = None"
    and "ITEM_MATCHES (snd kget) ''system''" "stashed sget \<noteq> Some SYS_PW"
  shows "rotate_customize h orig kget sget al customp0 =
         Returns \<lparr>c_ret = EPERM, c_heap = h, c_customp = customp0\<rparr>"
proof -
  have "(cryptos h)(a := None) = cryptos h" using assms(5) by (simp add: fun_upd_idem)
  moreover have "(strings h)(k := None) = strings h" using assms(6) by (simp add: fun_upd_idem)
  moreover have "(strings h)(q := None) = strings h" using assms(7) by (simp add: fun_upd_idem)
  ultimately show ?thesis
    unfolding customize_eperm [OF assms(1-4,8,9)]
    by (cases h) (simp split: option.splits)
qed

lemma customize_einval:
  assumes "calloc_instance al = Allocated a" "malloc_keyid al = Allocated k"
    "malloc_password al = Allocated q"
    and "\<not> ITEM_MATCHES (snd kget) ''system''" "\<not> ITEM_MATCHES (snd kget) USER1_KEYID"
      "\<not> ITEM_MATCHES (snd kget) USER2_KEYID"
  shows "rotate_customize h orig kget sget al customp0 =
         Returns \<lparr>c_ret = EINVAL,
                  c_heap = \<lparr>cryptos = (cryptos h)(a \<mapsto>
                              orig\<lparr>keyid := (if stashed kget = None then None else Some k),
                                    password := (if stashed sget = None then None else Some q)\<rparr>),
                            strings = (case stashed sget of None \<Rightarrow> (\<lambda>m. m) | Some s \<Rightarrow> (\<lambda>m. m(q \<mapsto> s)))
                                        ((case stashed kget of None \<Rightarrow> (\<lambda>m. m) | Some t \<Rightarrow> (\<lambda>m. m(k \<mapsto> t)))
                                           (strings h))\<rparr>,
                  c_customp = customp0\<rparr>"
  using assms(4-6)
  by (simp add: rotate_customize_policy [OF assms(1-3)] customize_policy_def)

lemma user2_not_user1:
  assumes "ITEM_MATCHES kitem USER2_KEYID"
  shows "\<not> ITEM_MATCHES kitem USER1_KEYID"
proof
  assume u1: "ITEM_MATCHES kitem USER1_KEYID"
  from assms have "strlen USER2_KEYID = item_len kitem"
    unfolding ITEM_MATCHES_def by (rule conjunct1)
  then have l: "item_len kitem = 5" by (simp add: strlen_names)
  from assms have "strncmp_eq0 (item_str kitem) USER2_KEYID (item_len kitem)"
    unfolding ITEM_MATCHES_def by (rule conjunct2)
  then have a: "take 5 (c_str (item_str kitem)) = take 5 (c_str USER2_KEYID)"
    unfolding strncmp_eq0_def l .
  from u1 have "strncmp_eq0 (item_str kitem) USER1_KEYID (item_len kitem)"
    unfolding ITEM_MATCHES_def by (rule conjunct2)
  then have b: "take 5 (c_str (item_str kitem)) = take 5 (c_str USER1_KEYID)"
    unfolding strncmp_eq0_def l .
  have "take 5 (c_str USER1_KEYID) \<noteq> take 5 (c_str USER2_KEYID)" by code_simp
  then show False using a b by simp
qed

lemma customize_success:
  assumes "calloc_instance al = Allocated a" "malloc_keyid al = Allocated k"
    "malloc_password al = Allocated q"
    and "(ITEM_MATCHES (snd kget) ''system'' \<and> stashed sget = Some SYS_PW \<and> n = 13)
       \<or> (ITEM_MATCHES (snd kget) USER1_KEYID \<and> n = 4)
       \<or> (ITEM_MATCHES (snd kget) USER2_KEYID \<and> n = 19)"
  shows "rotate_customize h orig kget sget al customp0 =
         Returns \<lparr>c_ret = 0,
                  c_heap = \<lparr>cryptos = (cryptos h)(a \<mapsto>
                              orig\<lparr>rot_N := n, num_calls := num_calls orig + 1,
                                    keyid := (if stashed kget = None then None else Some k),
                                    password := (if stashed sget = None then None else Some q)\<rparr>),
                            strings = (case stashed sget of None \<Rightarrow> (\<lambda>m. m) | Some s \<Rightarrow> (\<lambda>m. m(q \<mapsto> s)))
                                        ((case stashed kget of None \<Rightarrow> (\<lambda>m. m) | Some t \<Rightarrow> (\<lambda>m. m(k \<mapsto> t)))
                                           (strings h))\<rparr>,
                  c_customp = Some a\<rparr>"
  using assms(4)
proof (elim disjE conjE)
  assume "ITEM_MATCHES (snd kget) ''system''" "stashed sget = Some SYS_PW" "n = 13"
  then show ?thesis
    by (cases orig)
       (simp add: rotate_customize_policy [OF assms(1-3)] customize_policy_def customize_ok_def
        store_crypto_def strcmp_eq0_def)
next
  assume "ITEM_MATCHES (snd kget) USER1_KEYID" "n = 4"
  then show ?thesis using user_not_system(1) [of "snd kget"]
    by (cases orig)
       (simp add: rotate_customize_policy [OF assms(1-3)] customize_policy_def customize_ok_def
        store_crypto_def)
next
  assume u2: "ITEM_MATCHES (snd kget) USER2_KEYID" "n = 19"
  then have "\<not> ITEM_MATCHES (snd kget) USER1_KEYID"
    using user2_not_user1 by blast
  then show ?thesis using u2 user_not_system(2) [of "snd kget"]
    by (cases orig)
       (simp add: rotate_customize_policy [OF assms(1-3)] customize_policy_def customize_ok_def
        store_crypto_def)
qed

lemma terminate_release_returns:
  assumes "cryptos h p = Some mc"
    and "\<forall>s. password mc = Some s \<longrightarrow> strings h s \<noteq> None"
    and "\<forall>s. keyid mc = Some s \<longrightarrow> strings h s \<noteq> None"
    and "password mc = None \<or> password mc \<noteq> keyid mc"
  shows "terminate_release h p =
         Returns \<lparr>cryptos = (cryptos h)(p \<mapsto>
                     mc\<lparr>num_calls := num_calls mc + 1, password := None, keyid := None\<rparr>),
                  strings = (\<lambda>x. if Some x = password mc \<or> Some x = keyid mc then None
                                  else strings h x)\<rparr>"
proof (cases "password mc")
  case pn: None
  show ?thesis
  proof (cases "keyid mc")
    case None
    then show ?thesis using pn assms(1)
      by (cases h) (simp add: terminate_release_def and_then_def store_crypto_def Let_def)
  next
    case (Some kp)
    then obtain ks where "strings h kp = Some ks" using assms(3) by auto
    then show ?thesis using pn Some assms(1)
      by (cases h)
         (auto simp add: terminate_release_def and_then_def store_crypto_def Let_def
            free_string_def fun_eq_iff)
  qed
next
  case ps: (Some pp)
  then obtain pws where pw: "strings h pp = Some pws" using assms(2) by auto
  show ?thesis
  proof (cases "keyid mc")
    case None
    then show ?thesis using ps pw assms(1)
      by (cases h)
         (auto simp add: terminate_release_def and_then_def store_crypto_def Let_def
            free_string_def fun_eq_iff)
  next
    case (Some kp)
    then obtain ks where k: "strings h kp = Some ks" using assms(3) by auto
    have ne: "pp \<noteq> kp" using assms(4) ps Some by auto
    show ?thesis using ps pw Some k ne assms(1)
      by (cases h)
         (auto simp add: terminate_release_def and_then_def store_crypto_def Let_def
            free_string_def fun_eq_iff)
  qed
qed

section \<open>The claims about the transform\<close>

subsection \<open>C1: round trip\<close>

text \<open>
  C1, as the code has it: for every byte sequence \<open>x\<close> of fewer than \<open>2^32\<close> bytes and every
  instance whose rotation distance is 4, 13 or 19, \<open>rotate_encrypt\<close> into a destination of
  capacity exactly \<open>length x + 20\<close> returns 0 and leaves the 20 header bytes followed by
  \<open>x\<close> rotated by the distance (alphabetic bytes only, see \<open>rotate_byte\<close>);
  \<open>rotate_decrypt\<close> of that record, with the same distance, into a destination of capacity
  exactly \<open>length x\<close> returns 0, reports \<open>length x\<close> bytes and leaves exactly \<open>x\<close>.
  Nothing is stated for longer sequences.
\<close>

theorem rotate_roundtrip:
  assumes "rot_N c = 4 \<or> rot_N c = 13 \<or> rot_N c = 19" and "rot_N c' = rot_N c"
    and "length x < 2 ^ 32" and "unat src_len = length x"
    and "length dst = length x + 20" and "unat dst_len = length x + 20"
    and "length dst2 = length x" and "unat dst2_len = length x"
  shows "\<exists>r. rotate_encrypt c rnd (Some x) src_len dst dst_len rl0 = Returns r
             \<and> r_ret r = 0
             \<and> drop 20 (r_dst r) = map (\<lambda>b. rotate_byte b (rot_N c)) x
             \<and> (\<exists>r2. rotate_decrypt c' (Some (r_dst r)) (r_result_len r) dst2 dst2_len rl1
                        = Returns r2
                      \<and> r_ret r2 = 0 \<and> r_result_len r2 = dst2_len \<and> r_dst r2 = x)"
proof -
  let ?p = "rot_N c"
  let ?rec = "header rnd @ map (\<lambda>b. rotate_byte b ?p) x"
  have p: "1 \<le> unat ?p" "unat ?p \<le> 26" using assms(1) by auto
  have e: "rotate_encrypt c rnd (Some x) src_len dst dst_len rl0 =
           Returns \<lparr>r_ret = 0, r_dst = ?rec, r_result_len = dst_len,
                    r_crypto = c\<lparr>num_calls := num_calls c + 1\<rparr>\<rparr>"
    using rotate_encrypt_returns [of src_len x dst_len dst c rnd rl0] assms(3-6) by simp
  have lrec: "length ?rec = length x + 20" by (simp add: length_header)
  have d20: "drop 20 ?rec = map (\<lambda>b. rotate_byte b ?p) x"
    using length_header [of rnd] by simp
  have inv: "map (\<lambda>b. rotate_byte b (26 - ?p)) (map (\<lambda>b. rotate_byte b ?p) x) = x"
    using rotate_byte_inverse [OF p] by (simp add: map_idI)
  have d: "rotate_decrypt c' (Some ?rec) dst_len dst2 dst2_len rl1 =
           Returns \<lparr>r_ret = 0, r_dst = x, r_result_len = dst2_len,
                    r_crypto = c'\<lparr>num_calls := num_calls c' + 1\<rparr>\<rparr>"
    using rotate_decrypt_returns [of dst2_len dst_len ?rec dst2 c' rl1] assms(2,3,6-8) lrec d20 inv
    by simp
  show ?thesis using e d d20 by simp
qed

theorem rotate_roundtrip_witness:
  "\<exists>r. rotate_encrypt \<lparr>rot_N = 13, num_calls = 0, keyid = None, password = None\<rparr> (\<lambda>k. 7)
          (Some [72, 105]) 2 (replicate 22 0) 22 0 = Returns r
       \<and> r_ret r = 0
       \<and> drop 20 (r_dst r) = map (\<lambda>b. rotate_byte b 13) [72, 105]
       \<and> (\<exists>r2. rotate_decrypt \<lparr>rot_N = 13, num_calls = 1, keyid = None, password = None\<rparr>
                   (Some (r_dst r)) (r_result_len r) [0, 0] 2 0 = Returns r2
                \<and> r_ret r2 = 0 \<and> r_result_len r2 = 2 \<and> r_dst r2 = [72, 105])"
  using rotate_roundtrip [of "\<lparr>rot_N = 13, num_calls = 0, keyid = None, password = None\<rparr>"
      "\<lparr>rot_N = 13, num_calls = 1, keyid = None, password = None\<rparr>" "[72, 105]" 2
      "replicate 22 0" 22 "[0, 0]" 2 "\<lambda>k. 7" 0 0]
  by simp

text \<open>
  The capacities have to be the exact ones, because both callbacks report the capacity they
  were given. \<open>rotate_encrypt\<close> of the two bytes \<open>Hi\<close> into a capacity of 23 returns 0 and
  reports a record of 23 bytes; \<open>rotate_decrypt\<close> of that record into a capacity of 2
  returns \<open>ENOMEM\<close>, and into a capacity of 3 it returns three bytes, not \<open>Hi\<close>.
\<close>

theorem rotate_roundtrip_counterexample:
  "rotate_encrypt \<lparr>rot_N = 13, num_calls = 0, keyid = None, password = None\<rparr> (\<lambda>k. 7)
     (Some [72, 105]) 2 (replicate 23 0) 23 0 =
   Returns \<lparr>r_ret = 0, r_dst = replicate 20 7 @ [85, 118, 0], r_result_len = 23,
            r_crypto = \<lparr>rot_N = 13, num_calls = 1, keyid = None, password = None\<rparr>\<rparr>
   \<and> rotate_decrypt \<lparr>rot_N = 13, num_calls = 1, keyid = None, password = None\<rparr>
     (Some (replicate 20 7 @ [85, 118, 0])) 23 [0, 0] 2 0 =
   Returns \<lparr>r_ret = ENOMEM, r_dst = [0, 0], r_result_len = 0,
            r_crypto = \<lparr>rot_N = 13, num_calls = 2, keyid = None, password = None\<rparr>\<rparr>
   \<and> rotate_decrypt \<lparr>rot_N = 13, num_calls = 1, keyid = None, password = None\<rparr>
     (Some (replicate 20 7 @ [85, 118, 0])) 23 [0, 0, 0] 3 0 =
   Returns \<lparr>r_ret = 0, r_dst = [72, 105, 0], r_result_len = 3,
            r_crypto = \<lparr>rot_N = 13, num_calls = 2, keyid = None, password = None\<rparr>\<rparr>"
proof (intro conjI)
  show "rotate_encrypt \<lparr>rot_N = 13, num_calls = 0, keyid = None, password = None\<rparr> (\<lambda>k. 7)
     (Some [72, 105]) 2 (replicate 23 0) 23 0 =
   Returns \<lparr>r_ret = 0, r_dst = replicate 20 7 @ [85, 118, 0], r_result_len = 23,
            r_crypto = \<lparr>rot_N = 13, num_calls = 1, keyid = None, password = None\<rparr>\<rparr>"
    using rotate_encrypt_returns
      [of 2 "[72, 105]" 23 "replicate 23 0"
          "\<lparr>rot_N = 13, num_calls = 0, keyid = None, password = None\<rparr>" "\<lambda>k. 7" 0]
    by (simp add: header_const rotate_byte_def isalpha_def islower_def)
next
  have "(2 :: size_t) < 23 - of_nat CHKSUM_LEN - of_nat IV_LEN"
    by (simp only: word_less_nat_alt unat_minus_hdr) simp
  then show "rotate_decrypt \<lparr>rot_N = 13, num_calls = 1, keyid = None, password = None\<rparr>
     (Some (replicate 20 7 @ [85, 118, 0])) 23 [0, 0] 2 0 =
   Returns \<lparr>r_ret = ENOMEM, r_dst = [0, 0], r_result_len = 0,
            r_crypto = \<lparr>rot_N = 13, num_calls = 2, keyid = None, password = None\<rparr>\<rparr>"
    by (simp add: rotate_decrypt_def)
next
  show "rotate_decrypt \<lparr>rot_N = 13, num_calls = 1, keyid = None, password = None\<rparr>
     (Some (replicate 20 7 @ [85, 118, 0])) 23 [0, 0, 0] 3 0 =
   Returns \<lparr>r_ret = 0, r_dst = [72, 105, 0], r_result_len = 3,
            r_crypto = \<lparr>rot_N = 13, num_calls = 2, keyid = None, password = None\<rparr>\<rparr>"
    using rotate_decrypt_returns
      [of 3 23 "replicate 20 7 @ [85, 118, 0]" "[0, 0, 0]"
          "\<lparr>rot_N = 13, num_calls = 1, keyid = None, password = None\<rparr>" 0]
    by (simp add: rotate_byte_def isalpha_def islower_def)
qed

text \<open>
  On a source of \<open>2^32\<close> bytes the \<open>uint32_t\<close> index of the loop in \<open>do_rotate\<close> wraps to 0
  before it reaches \<open>len\<close>, and \<open>rotate_encrypt\<close> does not return.
\<close>

lemma rotate_encrypt_4GiB_diverges:
  "rotate_encrypt \<lparr>rot_N = 13, num_calls = 0, keyid = None, password = None\<rparr> (\<lambda>k. 0)
     (Some (replicate 4294967296 0)) 4294967296 (replicate 4294967316 0) 4294967316 0
   = Diverges"
  by (rule rotate_encrypt_diverges) simp_all

subsection \<open>C5: lengths produced and reported\<close>

text \<open>
  C5, as the code has it: for a source of fewer than \<open>2^32\<close> bytes and a destination capacity
  \<open>dst_len\<close> of at least \<open>src_len + 20\<close>, \<open>rotate_encrypt\<close> returns 0, writes the header and
  the rotated source into the first \<open>src_len + 20\<close> bytes of the destination, leaves the
  rest of it alone, and reports \<open>dst_len\<close>, the capacity it was given; that is
  \<open>src_len + sizing()\<close> when the capacity is exactly the required size. \<open>rotate_sizing\<close>
  returns 0 and the constant 20. \<open>rotate_decrypt\<close> of a record of \<open>n\<close> bytes, with
  \<open>20 \<le> n < 2^32 + 20\<close>, into a destination of capacity exactly \<open>n - 20\<close> returns 0,
  writes \<open>n - 20\<close> bytes and reports \<open>n - 20\<close>. Nothing is stated for sources or payloads of
  \<open>2^32\<close> bytes or more.
\<close>

theorem rotate_lengths:
  "(unat src_len < 2 ^ 32 \<and> unat src_len \<le> length s
      \<and> unat src_len + 20 \<le> unat dst_len \<and> unat dst_len \<le> length dst \<longrightarrow>
     (\<exists>r. rotate_encrypt c rnd (Some s) src_len dst dst_len rl0 = Returns r
          \<and> r_ret r = 0 \<and> r_result_len r = dst_len
          \<and> take (unat src_len + 20) (r_dst r)
              = header rnd @ map (\<lambda>b. rotate_byte b (rot_N c)) (take (unat src_len) s)
          \<and> drop (unat src_len + 20) (r_dst r) = drop (unat src_len + 20) dst
          \<and> (unat dst_len = unat src_len + 20 \<longrightarrow>
               unat (r_result_len r)
               = unat src_len + unat (s_expansion_constant (rotate_sizing c)))))
   \<and> s_ret (rotate_sizing c) = 0 \<and> unat (s_expansion_constant (rotate_sizing c)) = 20
   \<and> (unat dst_len < 2 ^ 32 \<and> 20 \<le> unat src_len \<and> unat src_len \<le> length s
      \<and> unat dst_len = unat src_len - 20 \<and> unat dst_len \<le> length dst \<longrightarrow>
     (\<exists>r. rotate_decrypt c (Some s) src_len dst dst_len rl0 = Returns r
          \<and> r_ret r = 0 \<and> unat (r_result_len r) = unat src_len - 20
          \<and> take (unat src_len - 20) (r_dst r)
              = map (\<lambda>b. rotate_byte b (26 - rot_N c)) (take (unat src_len - 20) (drop 20 s))
          \<and> drop (unat src_len - 20) (r_dst r) = drop (unat src_len - 20) dst))"
proof (intro conjI impI)
  assume a: "unat src_len < 2 ^ 32 \<and> unat src_len \<le> length s
      \<and> unat src_len + 20 \<le> unat dst_len \<and> unat dst_len \<le> length dst"
  let ?n = "unat src_len"
  let ?body = "map (\<lambda>b. rotate_byte b (rot_N c)) (take ?n s)"
  have sz: "unat (s_expansion_constant (rotate_sizing c)) = 20"
    by (simp add: rotate_sizing_def CHKSUM_LEN_def IV_LEN_def)
  have l: "length (header rnd @ ?body) = ?n + 20" using a by (simp add: length_header)
  have e: "rotate_encrypt c rnd (Some s) src_len dst dst_len rl0 =
         Returns \<lparr>r_ret = 0,
                  r_dst = (header rnd @ ?body) @ drop (20 + ?n) dst,
                  r_result_len = dst_len,
                  r_crypto = c\<lparr>num_calls := num_calls c + 1\<rparr>\<rparr>"
    using rotate_encrypt_returns [of src_len s dst_len dst c rnd rl0] a by simp
  have t: "take (?n + 20) ((header rnd @ ?body) @ drop (20 + ?n) dst) = header rnd @ ?body"
    using l by (simp only: take_append) simp
  have d: "drop (?n + 20) ((header rnd @ ?body) @ drop (20 + ?n) dst) = drop (?n + 20) dst"
    using l by (simp only: drop_append) (simp add: add.commute)
  show "\<exists>r. rotate_encrypt c rnd (Some s) src_len dst dst_len rl0 = Returns r
          \<and> r_ret r = 0 \<and> r_result_len r = dst_len
          \<and> take (unat src_len + 20) (r_dst r)
              = header rnd @ map (\<lambda>b. rotate_byte b (rot_N c)) (take (unat src_len) s)
          \<and> drop (unat src_len + 20) (r_dst r) = drop (unat src_len + 20) dst
          \<and> (unat dst_len = unat src_len + 20 \<longrightarrow>
               unat (r_result_len r)
               = unat src_len + unat (s_expansion_constant (rotate_sizing c)))"
    unfolding e using t d sz by simp
next
  show "s_ret (rotate_sizing c) = 0" by (simp add: rotate_sizing_def)
next
  show "unat (s_expansion_constant (rotate_sizing c)) = 20"
    by (simp add: rotate_sizing_def CHKSUM_LEN_def IV_LEN_def)
next
  assume a: "unat dst_len < 2 ^ 32 \<and> 20 \<le> unat src_len \<and> unat src_len \<le> length s
      \<and> unat dst_len = unat src_len - 20 \<and> unat dst_len \<le> length dst"
  let ?n = "unat src_len - 20"
  let ?body = "map (\<lambda>b. rotate_byte b (26 - rot_N c)) (take ?n (drop 20 s))"
  have l: "length ?body = ?n" using a by (auto simp add: min_def)
  have e: "rotate_decrypt c (Some s) src_len dst dst_len rl0 =
         Returns \<lparr>r_ret = 0, r_dst = ?body @ drop ?n dst, r_result_len = dst_len,
                  r_crypto = c\<lparr>num_calls := num_calls c + 1\<rparr>\<rparr>"
    using rotate_decrypt_returns [of dst_len src_len s dst c rl0] a by simp
  have t: "take ?n (?body @ drop ?n dst) = ?body"
    using l by (simp only: take_append) simp
  have d: "drop ?n (?body @ drop ?n dst) = drop ?n dst"
    using l by (simp only: drop_append) simp
  show "\<exists>r. rotate_decrypt c (Some s) src_len dst dst_len rl0 = Returns r
          \<and> r_ret r = 0 \<and> unat (r_result_len r) = unat src_len - 20
          \<and> take (unat src_len - 20) (r_dst r)
              = map (\<lambda>b. rotate_byte b (26 - rot_N c)) (take (unat src_len - 20) (drop 20 s))
          \<and> drop (unat src_len - 20) (r_dst r) = drop (unat src_len - 20) dst"
    unfolding e using t d a by simp
qed

theorem rotate_lengths_witness:
  "(\<exists>r. rotate_encrypt \<lparr>rot_N = 19, num_calls = 0, keyid = None, password = None\<rparr> (\<lambda>k. 7)
         (Some [72, 105]) 2 (replicate 30 0) 30 0 = Returns r
      \<and> r_ret r = 0 \<and> r_result_len r = 30)
   \<and> (\<exists>r. rotate_decrypt \<lparr>rot_N = 19, num_calls = 0, keyid = None, password = None\<rparr>
         (Some (replicate 22 9)) 22 [0, 0] 2 0 = Returns r
      \<and> r_ret r = 0 \<and> unat (r_result_len r) = 2)"
  using rotate_lengths
    [of 2 "[72, 105]" 30 "replicate 30 0" "\<lparr>rot_N = 19, num_calls = 0, keyid = None, password = None\<rparr>"
        "\<lambda>k. 7" 0]
    rotate_lengths
    [of 22 "replicate 22 9" 2 "[0, 0]" "\<lparr>rot_N = 19, num_calls = 0, keyid = None, password = None\<rparr>"
        "\<lambda>k. 7" 0]
  by auto

text \<open>
  With a capacity of 22 for a source of one byte, \<open>rotate_encrypt\<close> reports 22 bytes, not 21;
  with a capacity of 2 for a record of 21 bytes (in a buffer that holds 22),
  \<open>rotate_decrypt\<close> writes and reports 2 bytes, not 1.
\<close>

theorem rotate_lengths_counterexample:
  "rotate_encrypt \<lparr>rot_N = 13, num_calls = 0, keyid = None, password = None\<rparr> (\<lambda>k. 7)
     (Some [97]) 1 (replicate 22 0) 22 0 =
   Returns \<lparr>r_ret = 0, r_dst = replicate 20 7 @ [110, 0], r_result_len = 22,
            r_crypto = \<lparr>rot_N = 13, num_calls = 1, keyid = None, password = None\<rparr>\<rparr>
   \<and> rotate_decrypt \<lparr>rot_N = 13, num_calls = 1, keyid = None, password = None\<rparr>
     (Some (replicate 20 7 @ [110, 0])) 21 [0, 0] 2 0 =
   Returns \<lparr>r_ret = 0, r_dst = [97, 0], r_result_len = 2,
            r_crypto = \<lparr>rot_N = 13, num_calls = 2, keyid = None, password = None\<rparr>\<rparr>"
proof (intro conjI)
  show "rotate_encrypt \<lparr>rot_N = 13, num_calls = 0, keyid = None, password = None\<rparr> (\<lambda>k. 7)
     (Some [97]) 1 (replicate 22 0) 22 0 =
   Returns \<lparr>r_ret = 0, r_dst = replicate 20 7 @ [110, 0], r_result_len = 22,
            r_crypto = \<lparr>rot_N = 13, num_calls = 1, keyid = None, password = None\<rparr>\<rparr>"
    using rotate_encrypt_returns
      [of 1 "[97]" 22 "replicate 22 0"
          "\<lparr>rot_N = 13, num_calls = 0, keyid = None, password = None\<rparr>" "\<lambda>k. 7" 0]
    by (simp add: header_const rotate_byte_def isalpha_def islower_def)
next
  show "rotate_decrypt \<lparr>rot_N = 13, num_calls = 1, keyid = None, password = None\<rparr>
     (Some (replicate 20 7 @ [110, 0])) 21 [0, 0] 2 0 =
   Returns \<lparr>r_ret = 0, r_dst = [97, 0], r_result_len = 2,
            r_crypto = \<lparr>rot_N = 13, num_calls = 2, keyid = None, password = None\<rparr>\<rparr>"
    using rotate_decrypt_returns
      [of 2 21 "replicate 20 7 @ [110, 0]" "[0, 0]"
          "\<lparr>rot_N = 13, num_calls = 1, keyid = None, password = None\<rparr>" 0]
    by (simp add: rotate_byte_def isalpha_def islower_def)
qed

subsection \<open>C6: absent source\<close>



subsection \<open>C7: capacity one byte short\<close>

text \<open>
  C7: \<open>rotate_encrypt\<close> of a present source with a destination capacity one byte short of
  \<open>src_len + 20\<close> returns \<open>ENOMEM\<close>, and so does \<open>rotate_decrypt\<close> of a record of
  \<open>src_len \<ge> 20\<close> bytes with a capacity one byte short of \<open>src_len - 20\<close>; in both cases
  the destination buffer and \<open>*result_lenp\<close> are left as they were. (\<open>src_len + 20\<close> is below
  \<open>2^64\<close> for every buffer that fits the address space together with its destination.)
\<close>

theorem rotate_short_capacity:
  "(unat src_len + 20 < 2 ^ 64 \<and> unat dst_len + 1 = unat src_len + 20 \<longrightarrow>
      rotate_encrypt c rnd (Some s) src_len dst dst_len rl0 =
        Returns \<lparr>r_ret = ENOMEM, r_dst = dst, r_result_len = rl0,
                 r_crypto = c\<lparr>num_calls := num_calls c + 1\<rparr>\<rparr>)
   \<and> (20 \<le> unat src_len \<and> unat dst_len + 1 = unat src_len - 20 \<longrightarrow>
      rotate_decrypt c (Some s) src_len dst dst_len rl0 =
        Returns \<lparr>r_ret = ENOMEM, r_dst = dst, r_result_len = rl0,
                 r_crypto = c\<lparr>num_calls := num_calls c + 1\<rparr>\<rparr>)"
proof (intro conjI impI)
  assume a: "unat src_len + 20 < 2 ^ 64 \<and> unat dst_len + 1 = unat src_len + 20"
  then have "dst_len < src_len + of_nat CHKSUM_LEN + of_nat IV_LEN"
    using unat_plus_hdr [of src_len] by (simp add: word_less_nat_alt)
  then show "rotate_encrypt c rnd (Some s) src_len dst dst_len rl0 =
        Returns \<lparr>r_ret = ENOMEM, r_dst = dst, r_result_len = rl0,
                 r_crypto = c\<lparr>num_calls := num_calls c + 1\<rparr>\<rparr>"
    by (simp add: rotate_encrypt_def)
next
  assume a: "20 \<le> unat src_len \<and> unat dst_len + 1 = unat src_len - 20"
  then have "dst_len < src_len - of_nat CHKSUM_LEN - of_nat IV_LEN"
    by (simp add: word_less_nat_alt unat_minus_hdr)
  then show "rotate_decrypt c (Some s) src_len dst dst_len rl0 =
        Returns \<lparr>r_ret = ENOMEM, r_dst = dst, r_result_len = rl0,
                 r_crypto = c\<lparr>num_calls := num_calls c + 1\<rparr>\<rparr>"
    by (simp add: rotate_decrypt_def)
qed

theorem rotate_short_capacity_witness:
  "rotate_encrypt \<lparr>rot_N = 4, num_calls = 0, keyid = None, password = None\<rparr> (\<lambda>k. 7)
     (Some [72, 105]) 2 (replicate 21 0) 21 0 =
   Returns \<lparr>r_ret = ENOMEM, r_dst = replicate 21 0, r_result_len = 0,
            r_crypto = \<lparr>rot_N = 4, num_calls = 1, keyid = None, password = None\<rparr>\<rparr>
   \<and> rotate_decrypt \<lparr>rot_N = 4, num_calls = 1, keyid = None, password = None\<rparr>
     (Some (replicate 22 9)) 22 [0] 1 0 =
   Returns \<lparr>r_ret = ENOMEM, r_dst = [0], r_result_len = 0,
            r_crypto = \<lparr>rot_N = 4, num_calls = 2, keyid = None, password = None\<rparr>\<rparr>"
  using rotate_short_capacity
    [of 2 21 "\<lparr>rot_N = 4, num_calls = 0, keyid = None, password = None\<rparr>" "\<lambda>k. 7"
        "[72, 105]" "replicate 21 0" 0]
    rotate_short_capacity
    [of 22 1 "\<lparr>rot_N = 4, num_calls = 1, keyid = None, password = None\<rparr>" "\<lambda>k. 7"
        "replicate 22 9" "[0]" 0]
  by simp

subsection \<open>C10: records shorter than the header\<close>

text \<open>
  C10: for a present source with \<open>0 < src_len < 20\<close>, the required size
  \<open>src_len - CHKSUM_LEN - IV_LEN\<close> wraps to \<open>2^64 - 20 + src_len\<close>; \<open>rotate_decrypt\<close> returns
  \<open>ENOMEM\<close> and writes nothing for every capacity below that value, and for no capacity
  from that value on, so that no other check rejects the short record.
\<close>

theorem rotate_decrypt_short_record:
  assumes "0 < unat src_len" and "unat src_len < 20"
  shows "unat (src_len - of_nat CHKSUM_LEN - of_nat IV_LEN) = 2 ^ 64 - 20 + unat src_len
       \<and> (unat dst_len < 2 ^ 64 - 20 + unat src_len \<longrightarrow>
            rotate_decrypt c (Some s) src_len dst dst_len rl0 =
              Returns \<lparr>r_ret = ENOMEM, r_dst = dst, r_result_len = rl0,
                       r_crypto = c\<lparr>num_calls := num_calls c + 1\<rparr>\<rparr>)
       \<and> (2 ^ 64 - 20 + unat src_len \<le> unat dst_len \<longrightarrow>
            (\<forall>r. rotate_decrypt c (Some s) src_len dst dst_len rl0 = Returns r \<longrightarrow> r_ret r = 0))"
proof -
  have u: "unat (src_len - of_nat CHKSUM_LEN - of_nat IV_LEN) = 2 ^ 64 - 20 + unat src_len"
    using assms(2) by (simp add: unat_minus_hdr)
  have lt: "dst_len < src_len - of_nat CHKSUM_LEN - of_nat IV_LEN
            \<longleftrightarrow> unat dst_len < 2 ^ 64 - 20 + unat src_len"
    by (simp only: word_less_nat_alt u)
  have 1: "unat dst_len < 2 ^ 64 - 20 + unat src_len \<longrightarrow>
            rotate_decrypt c (Some s) src_len dst dst_len rl0 =
              Returns \<lparr>r_ret = ENOMEM, r_dst = dst, r_result_len = rl0,
                       r_crypto = c\<lparr>num_calls := num_calls c + 1\<rparr>\<rparr>"
    using lt by (simp add: rotate_decrypt_def)
  have 2: "2 ^ 64 - 20 + unat src_len \<le> unat dst_len \<longrightarrow>
            (\<forall>r. rotate_decrypt c (Some s) src_len dst dst_len rl0 = Returns r \<longrightarrow> r_ret r = 0)"
  proof (intro impI allI)
    fix r
    assume a: "2 ^ 64 - 20 + unat src_len \<le> unat dst_len"
      and b: "rotate_decrypt c (Some s) src_len dst dst_len rl0 = Returns r"
    from a lt have "\<not> dst_len < src_len - of_nat CHKSUM_LEN - of_nat IV_LEN" by simp
    with b show "r_ret r = 0"
      by (auto simp add: rotate_decrypt_def and_then_def Let_def split: outcome.splits)
  qed
  show ?thesis using u 1 2 by blast
qed

theorem rotate_decrypt_short_record_witness:
  "rotate_decrypt \<lparr>rot_N = 13, num_calls = 0, keyid = None, password = None\<rparr>
     (Some [1, 2, 3]) 3 (replicate 100 0) 100 0 =
   Returns \<lparr>r_ret = ENOMEM, r_dst = replicate 100 0, r_result_len = 0,
            r_crypto = \<lparr>rot_N = 13, num_calls = 1, keyid = None, password = None\<rparr>\<rparr>"
  using rotate_decrypt_short_record
    [of 3 100 "\<lparr>rot_N = 13, num_calls = 0, keyid = None, password = None\<rparr>" "[1, 2, 3]"
        "replicate 100 0" 0]
  by simp

section \<open>The claims about the instance life cycle\<close>

subsection \<open>C2: the keyid mapping\<close>



subsection \<open>C3: rejected configurations\<close>

text \<open>
  C3 does not hold for an absent keyid. When the \<open>keyid\<close> lookup fails, \<open>rotate_customize\<close>
  does not look at the value \<open>config_get\<close> returned: it goes on to the key policy and
  tests the local item, which the failed lookup never wrote. With \<open>WT_NOTFOUND\<close> (-31803)
  from the lookup and an item left spelling \<open>user1\<close>, it returns 0 and hands back an
  instance with \<open>rot_N = 4\<close> and no keyid, where the claim has \<open>EINVAL\<close> and no instance.
\<close>

theorem customize_absent_keyid_accepted:
  "rotate_customize
     \<lparr>cryptos = [my_crypto_global \<mapsto> \<lparr>rot_N = 0, num_calls = 0, keyid = None, password = None\<rparr>],
      strings = Map.empty\<rparr>
     \<lparr>rot_N = 0, num_calls = 0, keyid = None, password = None\<rparr>
     (- 31803, \<lparr>item_str = ''user1'', item_len = 5\<rparr>)
     (0, \<lparr>item_str = [], item_len = 0\<rparr>)
     \<lparr>calloc_instance = Allocated 1, malloc_keyid = Allocated 2, malloc_password = Allocated 3\<rparr>
     None
   = Returns
       \<lparr>c_ret = 0,
        c_heap =
          \<lparr>cryptos = [my_crypto_global \<mapsto> \<lparr>rot_N = 0, num_calls = 0, keyid = None, password = None\<rparr>,
                       1 \<mapsto> \<lparr>rot_N = 4, num_calls = 1, keyid = None, password = None\<rparr>],
           strings = Map.empty\<rparr>,
        c_customp = Some 1\<rparr>"
proof -
  let ?k = "(- 31803 :: int, \<lparr>item_str = ''user1'', item_len = 5\<rparr>)"
  let ?s = "(0 :: int, \<lparr>item_str = [], item_len = 0\<rparr>)"
  have m: "ITEM_MATCHES (snd ?k) USER1_KEYID" by code_simp
  have k: "stashed ?k = None" by (simp add: stashed_def)
  have s: "stashed ?s = None" by (simp add: stashed_def)
  show ?thesis
    using customize_success
      [of "\<lparr>calloc_instance = Allocated 1, malloc_keyid = Allocated 2, malloc_password = Allocated 3\<rparr>"
          1 2 3 ?k ?s 4
          "\<lparr>cryptos = [my_crypto_global \<mapsto> \<lparr>rot_N = 0, num_calls = 0, keyid = None, password = None\<rparr>],
            strings = Map.empty\<rparr>"
          "\<lparr>rot_N = 0, num_calls = 0, keyid = None, password = None\<rparr>" None] m
    by (simp add: k s)
qed

text \<open>
  The other cases hold. When its allocations succeed, \<open>rotate_customize\<close> returns \<open>EPERM\<close>
  for a keyid item that spells \<open>system\<close> when the secret is absent (the \<open>secretkey\<close> lookup
  failed or gave an empty item) or differs (the item, no longer than the text it points to,
  does not spell the system password); in general, when the string stashed as password is
  not the system password. It returns \<open>EINVAL\<close> when the keyid item is empty and when it
  spells none of \<open>system\<close>, \<open>user1\<close>, \<open>user2\<close>. In every case \<open>*customp\<close> is left as it
  was: no instance is handed back.
\<close>

lemma customize_rejects:
  assumes "calloc_instance al = Allocated a" "malloc_keyid al = Allocated k"
    "malloc_password al = Allocated q" "k \<noteq> q"
  shows "(ITEM_MATCHES (snd kget) ''system'' \<and> (fst sget \<noteq> 0 \<or> item_len (snd sget) = 0) \<longrightarrow>
           (\<exists>h'. rotate_customize h orig kget sget al customp0
                    = Returns \<lparr>c_ret = EPERM, c_heap = h', c_customp = customp0\<rparr>))
       \<and> (ITEM_MATCHES (snd kget) ''system''
            \<and> item_len (snd sget) \<le> strlen (item_str (snd sget))
            \<and> \<not> ITEM_MATCHES (snd sget) SYS_PW \<longrightarrow>
           (\<exists>h'. rotate_customize h orig kget sget al customp0
                    = Returns \<lparr>c_ret = EPERM, c_heap = h', c_customp = customp0\<rparr>))
       \<and> (ITEM_MATCHES (snd kget) ''system'' \<and> stashed sget \<noteq> Some SYS_PW \<longrightarrow>
           (\<exists>h'. rotate_customize h orig kget sget al customp0
                    = Returns \<lparr>c_ret = EPERM, c_heap = h', c_customp = customp0\<rparr>))
       \<and> (item_len (snd kget) = 0 \<longrightarrow>
           (\<exists>h'. rotate_customize h orig kget sget al customp0
                    = Returns \<lparr>c_ret = EINVAL, c_heap = h', c_customp = customp0\<rparr>))
       \<and> (\<not> ITEM_MATCHES (snd kget) ''system'' \<and> \<not> ITEM_MATCHES (snd kget) USER1_KEYID
            \<and> \<not> ITEM_MATCHES (snd kget) USER2_KEYID \<longrightarrow>
           (\<exists>h'. rotate_customize h orig kget sget al customp0
                    = Returns \<lparr>c_ret = EINVAL, c_heap = h', c_customp = customp0\<rparr>))"
proof -
  have eperm: "\<exists>h'. rotate_customize h orig kget sget al customp0
                    = Returns \<lparr>c_ret = EPERM, c_heap = h', c_customp = customp0\<rparr>"
    if "ITEM_MATCHES (snd kget) ''system''" "stashed sget \<noteq> Some SYS_PW"
    using customize_eperm [OF assms that, of h orig customp0] by simp
  have einval: "\<exists>h'. rotate_customize h orig kget sget al customp0
                    = Returns \<lparr>c_ret = EINVAL, c_heap = h', c_customp = customp0\<rparr>"
    if "\<not> ITEM_MATCHES (snd kget) ''system''" "\<not> ITEM_MATCHES (snd kget) USER1_KEYID"
      "\<not> ITEM_MATCHES (snd kget) USER2_KEYID"
    using customize_einval [OF assms(1-3) that, of h orig sget customp0] by simp
  have absent: "stashed sget \<noteq> Some SYS_PW" if "fst sget \<noteq> 0 \<or> item_len (snd sget) = 0"
    using that by (auto simp add: stashed_def)
  have differs: "stashed sget \<noteq> Some SYS_PW"
    if "item_len (snd sget) \<le> strlen (item_str (snd sget))" "\<not> ITEM_MATCHES (snd sget) SYS_PW"
    using that by (rule stashed_differing)
  have empty: "\<exists>h'. rotate_customize h orig kget sget al customp0
                    = Returns \<lparr>c_ret = EINVAL, c_heap = h', c_customp = customp0\<rparr>"
    if "item_len (snd kget) = 0"
    using einval empty_item_matches_none [OF that] by blast
  show ?thesis using eperm einval absent differs empty by blast
qed

lemma customize_rejects_examples:
  "(\<exists>h'. rotate_customize
            \<lparr>cryptos = [my_crypto_global \<mapsto> \<lparr>rot_N = 0, num_calls = 0, keyid = None, password = None\<rparr>],
             strings = Map.empty\<rparr>
            \<lparr>rot_N = 0, num_calls = 0, keyid = None, password = None\<rparr>
            (0, \<lparr>item_str = ''system,secretkey=bad_password)'', item_len = 6\<rparr>)
            (0, \<lparr>item_str = ''bad_password)'', item_len = 12\<rparr>)
            \<lparr>calloc_instance = Allocated 1, malloc_keyid = Allocated 2, malloc_password = Allocated 3\<rparr>
            None
          = Returns \<lparr>c_ret = EPERM, c_heap = h', c_customp = None\<rparr>)
   \<and> (\<exists>h'. rotate_customize
            \<lparr>cryptos = [my_crypto_global \<mapsto> \<lparr>rot_N = 0, num_calls = 0, keyid = None, password = None\<rparr>],
             strings = Map.empty\<rparr>
            \<lparr>rot_N = 0, num_calls = 0, keyid = None, password = None\<rparr>
            (0, \<lparr>item_str = ''system)'', item_len = 6\<rparr>)
            (0, \<lparr>item_str = [], item_len = 0\<rparr>)
            \<lparr>calloc_instance = Allocated 1, malloc_keyid = Allocated 2, malloc_password = Allocated 3\<rparr>
            None
          = Returns \<lparr>c_ret = EPERM, c_heap = h', c_customp = None\<rparr>)
   \<and> (\<exists>h'. rotate_customize
            \<lparr>cryptos = [my_crypto_global \<mapsto> \<lparr>rot_N = 0, num_calls = 0, keyid = None, password = None\<rparr>],
             strings = Map.empty\<rparr>
            \<lparr>rot_N = 0, num_calls = 0, keyid = None, password = None\<rparr>
            (0, \<lparr>item_str = [], item_len = 0\<rparr>)
            (0, \<lparr>item_str = [], item_len = 0\<rparr>)
            \<lparr>calloc_instance = Allocated 1, malloc_keyid = Allocated 2, malloc_password = Allocated 3\<rparr>
            None
          = Returns \<lparr>c_ret = EINVAL, c_heap = h', c_customp = None\<rparr>)"
proof -
  let ?al = "\<lparr>calloc_instance = Allocated 1, malloc_keyid = Allocated 2, malloc_password = Allocated 3\<rparr>"
  let ?h = "\<lparr>cryptos = [my_crypto_global \<mapsto> \<lparr>rot_N = 0, num_calls = 0, keyid = None, password = None\<rparr>],
             strings = Map.empty\<rparr>"
  let ?o = "\<lparr>rot_N = 0, num_calls = 0, keyid = None, password = None\<rparr>"
  have 1: "ITEM_MATCHES (snd (0 :: int, \<lparr>item_str = ''system,secretkey=bad_password)'', item_len = 6\<rparr>)) ''system''"
    by code_simp
  have 2: "item_len (snd (0 :: int, \<lparr>item_str = ''bad_password)'', item_len = 12\<rparr>))
           \<le> strlen (item_str (snd (0 :: int, \<lparr>item_str = ''bad_password)'', item_len = 12\<rparr>)))"
    by code_simp
  have 3: "\<not> ITEM_MATCHES (snd (0 :: int, \<lparr>item_str = ''bad_password)'', item_len = 12\<rparr>)) SYS_PW"
    by code_simp
  have 4: "ITEM_MATCHES (snd (0 :: int, \<lparr>item_str = ''system)'', item_len = 6\<rparr>)) ''system''"
    by code_simp
  have a: "\<exists>h'. rotate_customize ?h ?o
            (0, \<lparr>item_str = ''system,secretkey=bad_password)'', item_len = 6\<rparr>)
            (0, \<lparr>item_str = ''bad_password)'', item_len = 12\<rparr>) ?al None
          = Returns \<lparr>c_ret = EPERM, c_heap = h', c_customp = None\<rparr>"
    using 1 2 3
      customize_rejects [of ?al 1 2 3
        "(0, \<lparr>item_str = ''system,secretkey=bad_password)'', item_len = 6\<rparr>)"
        "(0, \<lparr>item_str = ''bad_password)'', item_len = 12\<rparr>)" ?h ?o None]
    by simp
  have b: "\<exists>h'. rotate_customize ?h ?o
            (0, \<lparr>item_str = ''system)'', item_len = 6\<rparr>)
            (0, \<lparr>item_str = [], item_len = 0\<rparr>) ?al None
          = Returns \<lparr>c_ret = EPERM, c_heap = h', c_customp = None\<rparr>"
    using 4
      customize_rejects [of ?al 1 2 3
        "(0, \<lparr>item_str = ''system)'', item_len = 6\<rparr>)"
        "(0, \<lparr>item_str = [], item_len = 0\<rparr>)" ?h ?o None]
    by simp
  have c: "\<exists>h'. rotate_customize ?h ?o
            (0, \<lparr>item_str = [], item_len = 0\<rparr>)
            (0, \<lparr>item_str = [], item_len = 0\<rparr>) ?al None
          = Returns \<lparr>c_ret = EINVAL, c_heap = h', c_customp = None\<rparr>"
    using
      customize_rejects [of ?al 1 2 3
        "(0, \<lparr>item_str = [], item_len = 0\<rparr>)"
        "(0, \<lparr>item_str = [], item_len = 0\<rparr>)" ?h ?o None]
    by simp
  show ?thesis using a b c by blast
qed

subsection \<open>C4: what a failed customize leaves allocated\<close>

text \<open>
  C4 does not hold on the \<open>EINVAL\<close> path. For the keyid \<open>userbad\<close>, as \<open>main\<close> configures it
  for \<open>table:cryptobad\<close>, \<open>rotate_customize\<close> returns \<open>EINVAL\<close> while the instance (at
  address 1) and the copy of the keyid (at address 2) are still allocated, and
  \<open>*customp\<close> is not assigned, so that nothing can release them. The \<open>EPERM\<close> path does
  release everything (\<open>customize_eperm_releases\<close>).
\<close>

theorem customize_unknown_keyid_leaks:
  "rotate_customize
     \<lparr>cryptos = [my_crypto_global \<mapsto> \<lparr>rot_N = 0, num_calls = 0, keyid = None, password = None\<rparr>],
      strings = Map.empty\<rparr>
     \<lparr>rot_N = 0, num_calls = 0, keyid = None, password = None\<rparr>
     (0, \<lparr>item_str = ''userbad),key_format=S,value_format=S'', item_len = 7\<rparr>)
     (0, \<lparr>item_str = [], item_len = 0\<rparr>)
     \<lparr>calloc_instance = Allocated 1, malloc_keyid = Allocated 2, malloc_password = Allocated 3\<rparr>
     None
   = Returns
       \<lparr>c_ret = EINVAL,
        c_heap =
          \<lparr>cryptos = [my_crypto_global \<mapsto> \<lparr>rot_N = 0, num_calls = 0, keyid = None, password = None\<rparr>,
                       1 \<mapsto> \<lparr>rot_N = 0, num_calls = 0, keyid = Some 2, password = None\<rparr>],
           strings = [2 \<mapsto> ''userbad'']\<rparr>,
        c_customp = None\<rparr>"
proof -
  let ?k = "(0 :: int, \<lparr>item_str = ''userbad),key_format=S,value_format=S'', item_len = 7\<rparr>)"
  let ?s = "(0 :: int, \<lparr>item_str = [], item_len = 0\<rparr>)"
  have m: "\<not> ITEM_MATCHES (snd ?k) ''system''" "\<not> ITEM_MATCHES (snd ?k) USER1_KEYID"
    "\<not> ITEM_MATCHES (snd ?k) USER2_KEYID"
    by code_simp+
  have k: "stashed ?k = Some ''userbad''" by code_simp
  have s: "stashed ?s = None" by code_simp
  show ?thesis
    using customize_einval
      [of "\<lparr>calloc_instance = Allocated 1, malloc_keyid = Allocated 2, malloc_password = Allocated 3\<rparr>"
          1 2 3 ?k, OF _ _ _ m, of "\<lparr>cryptos = [my_crypto_global \<mapsto> \<lparr>rot_N = 0, num_calls = 0, keyid = None, password = None\<rparr>],
      strings = Map.empty\<rparr>" "\<lparr>rot_N = 0, num_calls = 0, keyid = None, password = None\<rparr>" ?s None]
    by (simp add: k s)
qed

subsection \<open>C8: the call counter\<close>

text \<open>
  C8, as the code has it: \<open>num_calls\<close> is a \<open>uint32_t\<close>. Every call of \<open>rotate_encrypt\<close>,
  \<open>rotate_decrypt\<close> and \<open>rotate_sizing\<close> that returns leaves the instance as it was except
  for \<open>num_calls\<close>, which is one more modulo \<open>2^32\<close>: strictly more unless the counter
  was \<open>2^32 - 1\<close>. A \<open>rotate_customize\<close> that returns 0 hands back a new instance whose
  \<open>num_calls\<close> is the template's plus one (modulo \<open>2^32\<close>) and leaves every other
  instance, the template included, as it was.
\<close>

theorem num_calls_counts:
  "(\<forall>r. rotate_encrypt c rnd src src_len dst dst_len rl0 = Returns r
         \<longrightarrow> r_crypto r = c\<lparr>num_calls := num_calls c + 1\<rparr>)
   \<and> (\<forall>r. rotate_decrypt c src src_len dst dst_len rl0 = Returns r
         \<longrightarrow> r_crypto r = c\<lparr>num_calls := num_calls c + 1\<rparr>)
   \<and> s_crypto (rotate_sizing c) = c\<lparr>num_calls := num_calls c + 1\<rparr>
   \<and> (\<forall>res. rotate_customize h orig kget sget al customp0 = Returns res \<and> c_ret res = 0
         \<longrightarrow> (\<exists>a. calloc_instance al = Allocated a \<and> c_customp res = Some a
                \<and> map_option num_calls (cryptos (c_heap res) a) = Some (num_calls orig + 1)
                \<and> (\<forall>p. p \<noteq> a \<longrightarrow> cryptos (c_heap res) p = cryptos h p)))
   \<and> unat (num_calls c + 1) = (unat (num_calls c) + 1) mod 2 ^ 32
   \<and> (unat (num_calls c) + 1 < 2 ^ 32 \<longrightarrow> unat (num_calls c + 1) = unat (num_calls c) + 1)"
proof (intro conjI allI impI)
  fix r assume "rotate_encrypt c rnd src src_len dst dst_len rl0 = Returns r"
  then show "r_crypto r = c\<lparr>num_calls := num_calls c + 1\<rparr>"
    by (auto simp add: rotate_encrypt_def and_then_def Let_def
        split: option.splits if_splits outcome.splits)
next
  fix r assume "rotate_decrypt c src src_len dst dst_len rl0 = Returns r"
  then show "r_crypto r = c\<lparr>num_calls := num_calls c + 1\<rparr>"
    by (auto simp add: rotate_decrypt_def and_then_def Let_def
        split: option.splits if_splits outcome.splits)
next
  show "s_crypto (rotate_sizing c) = c\<lparr>num_calls := num_calls c + 1\<rparr>"
    by (simp add: rotate_sizing_def)
next
  fix res
  assume a: "rotate_customize h orig kget sget al customp0 = Returns res \<and> c_ret res = 0"
  have e: "ENOMEM \<noteq> 0" "EPERM \<noteq> 0" "EINVAL \<noteq> 0"
    by (simp_all add: ENOMEM_def EPERM_def EINVAL_def)
  from a e
  show "\<exists>a. calloc_instance al = Allocated a \<and> c_customp res = Some a
                \<and> map_option num_calls (cryptos (c_heap res) a) = Some (num_calls orig + 1)
                \<and> (\<forall>p. p \<noteq> a \<longrightarrow> cryptos (c_heap res) p = cryptos h p)"
    by (auto simp add: rotate_customize_def stash_def customize_policy_def customize_ok_def
        customize_err_def and_then_def free_string_def free_crypto_def store_crypto_def Let_def
        split: alloc_result.splits option.splits sum.splits if_splits outcome.splits prod.splits)
next
  show "unat (num_calls c + 1) = (unat (num_calls c) + 1) mod 2 ^ 32"
    by (simp add: unat_word_ariths)
next
  assume "unat (num_calls c) + 1 < 2 ^ 32"
  then show "unat (num_calls c + 1) = unat (num_calls c) + 1"
    by (simp add: unat_word_ariths)
qed

theorem num_calls_counts_witness:
  "(\<exists>r. rotate_decrypt \<lparr>rot_N = 4, num_calls = 7, keyid = None, password = None\<rparr>
           None 0 [] 0 0 = Returns r
        \<and> num_calls (r_crypto r) = 8)
   \<and> (\<exists>res. rotate_customize
            \<lparr>cryptos = [my_crypto_global \<mapsto> \<lparr>rot_N = 0, num_calls = 5, keyid = None, password = None\<rparr>],
             strings = Map.empty\<rparr>
            \<lparr>rot_N = 0, num_calls = 5, keyid = None, password = None\<rparr>
            (0, \<lparr>item_str = ''user2),key_format=S'', item_len = 5\<rparr>)
            (0, \<lparr>item_str = [], item_len = 0\<rparr>)
            \<lparr>calloc_instance = Allocated 1, malloc_keyid = Allocated 2, malloc_password = Allocated 3\<rparr>
            None = Returns res
        \<and> c_ret res = 0
        \<and> map_option num_calls (cryptos (c_heap res) 1) = Some 6
        \<and> map_option num_calls (cryptos (c_heap res) my_crypto_global) = Some 5)"
proof -
  let ?c = "\<lparr>rot_N = 4, num_calls = 7, keyid = None, password = None\<rparr>"
  let ?al = "\<lparr>calloc_instance = Allocated 1, malloc_keyid = Allocated 2, malloc_password = Allocated 3\<rparr>"
  let ?h = "\<lparr>cryptos = [my_crypto_global \<mapsto> \<lparr>rot_N = 0, num_calls = 5, keyid = None, password = None\<rparr>],
             strings = Map.empty\<rparr>"
  let ?o = "\<lparr>rot_N = 0, num_calls = 5, keyid = None, password = None\<rparr>"
  let ?k = "(0 :: int, \<lparr>item_str = ''user2),key_format=S'', item_len = 5\<rparr>)"
  let ?s = "(0 :: int, \<lparr>item_str = [], item_len = 0\<rparr>)"
  have d: "\<exists>r. rotate_decrypt ?c None 0 [] 0 0 = Returns r"
    by (simp add: rotate_decrypt_def)
  have m: "ITEM_MATCHES (snd ?k) USER2_KEYID" by code_simp
  have "\<exists>res. rotate_customize ?h ?o ?k ?s ?al None = Returns res \<and> c_ret res = 0"
    using customize_success [of ?al 1 2 3 ?k ?s 19 ?h ?o None] m by simp
  then obtain res where cu: "rotate_customize ?h ?o ?k ?s ?al None = Returns res" "c_ret res = 0"
    by blast
  from d obtain r where dr: "rotate_decrypt ?c None 0 [] 0 0 = Returns r" by blast
  have n: "num_calls (r_crypto r) = 8"
    using num_calls_counts [of ?c "\<lambda>k. 0" None 0 "[]" 0 0 ?h ?o ?k ?s ?al None] dr
    by simp
  have "map_option num_calls (cryptos (c_heap res) 1) = Some 6
        \<and> map_option num_calls (cryptos (c_heap res) my_crypto_global) = Some 5"
    using num_calls_counts [of ?c "\<lambda>k. 0" None 0 "[]" 0 0 ?h ?o ?k ?s ?al None] cu
    by (auto simp add: my_crypto_global_def)
  then show ?thesis using dr n cu by blast
qed

text \<open>At \<open>2^32 - 1\<close> the counter goes back to 0.\<close>

theorem num_calls_counts_counterexample:
  "num_calls (s_crypto (rotate_sizing
      \<lparr>rot_N = 13, num_calls = 4294967295, keyid = None, password = None\<rparr>)) = 0"
  by (simp add: rotate_sizing_def)

subsection \<open>C9: teardown\<close>

text \<open>
  C9: for a live instance whose non-null \<open>keyid\<close> and \<open>password\<close> point to live, distinct
  strings, \<open>rotate_terminate\<close> returns 0; before its last step the instance has
  \<open>num_calls\<close> incremented and both pointers cleared; afterwards both strings are released
  and no other string is; the instance itself is released when it is not
  \<open>my_crypto_global\<close>, and is kept (counter incremented, pointers cleared) when it is;
  a live \<open>my_crypto_global\<close> is live afterwards in either case.
\<close>

theorem rotate_terminate_releases:
  assumes "cryptos h p = Some mc"
    and "\<forall>s. password mc = Some s \<longrightarrow> strings h s \<noteq> None"
    and "\<forall>s. keyid mc = Some s \<longrightarrow> strings h s \<noteq> None"
    and "password mc = None \<or> password mc \<noteq> keyid mc"
  shows "\<exists>h3 h'. terminate_release h p = Returns h3
           \<and> cryptos h3 p
               = Some (mc\<lparr>num_calls := num_calls mc + 1, password := None, keyid := None\<rparr>)
           \<and> rotate_terminate h p = Returns (0, h')
           \<and> strings h' = (\<lambda>x. if Some x = password mc \<or> Some x = keyid mc then None
                                else strings h x)
           \<and> (p \<noteq> my_crypto_global \<longrightarrow> cryptos h' = (cryptos h)(p := None))
           \<and> (p = my_crypto_global \<longrightarrow> h' = h3)
           \<and> (cryptos h my_crypto_global \<noteq> None \<longrightarrow> cryptos h' my_crypto_global \<noteq> None)"
proof -
  let ?mc' = "mc\<lparr>num_calls := num_calls mc + 1, password := None, keyid := None\<rparr>"
  let ?s' = "\<lambda>x. if Some x = password mc \<or> Some x = keyid mc then None else strings h x"
  let ?h3 = "\<lparr>cryptos = (cryptos h)(p \<mapsto> ?mc'), strings = ?s'\<rparr>"
  have r: "terminate_release h p = Returns ?h3"
    using terminate_release_returns [OF assms] .
  show ?thesis
  proof (cases "p = my_crypto_global")
    case True
    then have "rotate_terminate h p = Returns (0, ?h3)"
      using r by (simp add: rotate_terminate_def and_then_def)
    then show ?thesis using r True by simp
  next
    case False
    then have "rotate_terminate h p
               = Returns (0, \<lparr>cryptos = (cryptos h)(p := None), strings = ?s'\<rparr>)"
      using r by (simp add: rotate_terminate_def and_then_def free_crypto_def)
    then show ?thesis using r False by simp
  qed
qed

theorem rotate_terminate_releases_witness:
  "(\<exists>h'. rotate_terminate
            \<lparr>cryptos = [my_crypto_global \<mapsto> \<lparr>rot_N = 0, num_calls = 0, keyid = None, password = None\<rparr>,
                         1 \<mapsto> \<lparr>rot_N = 13, num_calls = 9, keyid = Some 2, password = Some 3\<rparr>],
             strings = [2 \<mapsto> ''system'', 3 \<mapsto> ''system_password'']\<rparr> 1
          = Returns (0, h')
        \<and> strings h' 2 = None \<and> strings h' 3 = None \<and> cryptos h' 1 = None
        \<and> cryptos h' my_crypto_global
            = Some \<lparr>rot_N = 0, num_calls = 0, keyid = None, password = None\<rparr>)
   \<and> (\<exists>h'. rotate_terminate
            \<lparr>cryptos = [my_crypto_global \<mapsto> \<lparr>rot_N = 0, num_calls = 0, keyid = None, password = None\<rparr>,
                         1 \<mapsto> \<lparr>rot_N = 13, num_calls = 9, keyid = Some 2, password = Some 3\<rparr>],
             strings = [2 \<mapsto> ''system'', 3 \<mapsto> ''system_password'']\<rparr> my_crypto_global
          = Returns (0, h')
        \<and> cryptos h' my_crypto_global
            = Some \<lparr>rot_N = 0, num_calls = 1, keyid = None, password = None\<rparr>
        \<and> strings h' 2 = Some ''system'')"
proof -
  let ?h = "\<lparr>cryptos = [my_crypto_global \<mapsto> \<lparr>rot_N = 0, num_calls = 0, keyid = None, password = None\<rparr>,
                         1 \<mapsto> \<lparr>rot_N = 13, num_calls = 9, keyid = Some 2, password = Some 3\<rparr>],
             strings = [2 \<mapsto> ''system'', 3 \<mapsto> ''system_password'']\<rparr>"
  have a: "\<exists>h'. rotate_terminate ?h 1 = Returns (0, h')
        \<and> strings h' 2 = None \<and> strings h' 3 = None \<and> cryptos h' 1 = None
        \<and> cryptos h' my_crypto_global
            = Some \<lparr>rot_N = 0, num_calls = 0, keyid = None, password = None\<rparr>"
    using rotate_terminate_releases
      [of ?h 1 "\<lparr>rot_N = 13, num_calls = 9, keyid = Some 2, password = Some 3\<rparr>"]
    by (auto simp add: my_crypto_global_def)
  have b: "\<exists>h'. rotate_terminate ?h my_crypto_global = Returns (0, h')
        \<and> cryptos h' my_crypto_global
            = Some \<lparr>rot_N = 0, num_calls = 1, keyid = None, password = None\<rparr>
        \<and> strings h' 2 = Some ''system''"
    using rotate_terminate_releases
      [of ?h my_crypto_global "\<lparr>rot_N = 0, num_calls = 0, keyid = None, password = None\<rparr>"]
    by (auto simp add: my_crypto_global_def)
  show ?thesis using a b by blast
qed

end
